theory Spec2Isabelle
  imports Main "HOL-Library.Word" "HOL-Library.Stream"
begin

unbundle bit_operations_syntax

section \<open>Battleship for the Arduino Uno: the game core\<close>

text \<open>
  The repository holds several near-identical sketches. The development follows
  \<^verbatim>\<open>battle_ship_test_code.ino\<close> (its last sketch, lines 1730 to 2667: a 10 x 10 board
  packed at two bits per cell) for the grid storage, the placement validator, the attack
  resolution, the opponent and the state machine; \<^verbatim>\<open>battle_ship_serial_monitor.ino\<close>
  (a 12 x 12 board of signed bytes holding ship identifiers) for the strict placement
  validator; and the unnamed sketch \<^verbatim>\<open>part_001\<close> for the placement counter kept in a
  function-local static variable.

  Conventions. A \<^verbatim>\<open>uint8_t\<close> is an \<^typ>\<open>8 word\<close>, a \<^verbatim>\<open>uint16_t\<close> a \<^typ>\<open>16 word\<close>. Where the
  C++ expression is evaluated in \<^verbatim>\<open>int\<close> after integer promotion and cannot overflow, it
  is written over \<^typ>\<open>nat\<close> or \<^typ>\<open>int\<close> through \<^const>\<open>unat\<close>. A read or write
  beyond the end of an array is undefined behaviour in C++; the model makes it the
  explicit result \<open>Inl BufferOverrun\<close>. The LCD, the LED matrices and the buzzer only
  receive output and are left out.
\<close>

subsection \<open>Bit-packed grid storage\<close>

type_synonym u8 = "8 word"
type_synonym u16 = "16 word"
type_synonym u32 = "32 word"

datatype fault = BufferOverrun

text \<open>A grid is one of the four global byte arrays of \<^verbatim>\<open>totalGridBytes\<close> bytes.\<close>

type_synonym grid = "u8 list"

definition GRID_SIZE :: nat where
  "GRID_SIZE = 10"

definition NUM_SHIPS :: nat where
  "NUM_SHIPS = 5"

definition totalGridBits :: nat where
  "totalGridBits = GRID_SIZE * GRID_SIZE * 2"

definition totalGridBytes :: nat where
  "totalGridBytes = (totalGridBits + 7) div 8"

definition CELL_EMPTY :: u8 where "CELL_EMPTY = 0"
definition CELL_SHIP :: u8 where "CELL_SHIP = 1"
definition CELL_HIT :: u8 where "CELL_HIT = 2"
definition CELL_MISS :: u8 where "CELL_MISS = 3"

text \<open>
  \<^verbatim>\<open>uint16_t index = y * GRID_SIZE + x;\<close> The operands are promoted to \<^verbatim>\<open>int\<close>; the value
  is at most 255 * 10 + 255 and fits 16 bits.
\<close>

definition cellIndex :: "u8 \<Rightarrow> u8 \<Rightarrow> u16" where
  "cellIndex x y = ucast y * 10 + ucast x"

text \<open>\<^verbatim>\<open>uint16_t bitIndex = index * 2;\<close>\<close>

definition cellBitIndex :: "u8 \<Rightarrow> u8 \<Rightarrow> u16" where
  "cellBitIndex x y = cellIndex x y * 2"

text \<open>\<^verbatim>\<open>uint16_t byteIndex = bitIndex / 8;\<close>\<close>

definition cellByteIndex :: "u8 \<Rightarrow> u8 \<Rightarrow> nat" where
  "cellByteIndex x y = unat (cellBitIndex x y div 8)"

text \<open>\<^verbatim>\<open>uint8_t bitOffset = bitIndex % 8;\<close>\<close>

definition cellBitOffset :: "u8 \<Rightarrow> u8 \<Rightarrow> nat" where
  "cellBitOffset x y = unat (cellBitIndex x y mod 8)"

text \<open>
  \<^verbatim>\<open>setCellState\<close> (lines 2634 to 2650). The masks and the shifted state are computed in
  \<^verbatim>\<open>int\<close> and truncated to eight bits by the store, which is what \<^const>\<open>push_bit\<close> on
  \<^typ>\<open>u8\<close> does. In the second branch \<^verbatim>\<open>bitOffset\<close> has been reassigned to
  \<^verbatim>\<open>(bitOffset + 2) % 8\<close>.
\<close>

definition setCellState :: "grid \<Rightarrow> u8 \<Rightarrow> u8 \<Rightarrow> u8 \<Rightarrow> fault + grid" where
  "setCellState grid x y state =
     (let byteIndex = cellByteIndex x y;
          bitOffset = cellBitOffset x y;
          mask = (push_bit bitOffset 3 :: u8)
      in if length grid \<le> byteIndex then Inl BufferOverrun
         else
           let grid1 = grid[byteIndex :=
                         (grid ! byteIndex AND NOT mask) OR push_bit bitOffset (state AND 3)]
           in if 6 < bitOffset then
                (let byteIndex2 = byteIndex + 1;
                     bitOffset2 = (bitOffset + 2) mod 8;
                     mask2 = (drop_bit (6 - bitOffset2) 3 :: u8)
                 in if length grid \<le> byteIndex2 then Inl BufferOverrun
                    else Inr (grid1[byteIndex2 :=
                           (grid1 ! byteIndex2 AND NOT mask2)
                             OR drop_bit (8 - bitOffset2) (state AND 3)]))
              else Inr grid1)"

text \<open>\<^verbatim>\<open>getCellState\<close> (lines 2652 to 2668).\<close>

definition getCellState :: "grid \<Rightarrow> u8 \<Rightarrow> u8 \<Rightarrow> fault + u8" where
  "getCellState grid x y =
     (let byteIndex = cellByteIndex x y;
          bitOffset = cellBitOffset x y
      in if length grid \<le> byteIndex then Inl BufferOverrun
         else
           let state = drop_bit bitOffset (grid ! byteIndex) AND 3
           in if 6 < bitOffset then
                (let byteIndex2 = byteIndex + 1;
                     bitOffset2 = (bitOffset + 2) mod 8
                 in if length grid \<le> byteIndex2 then Inl BufferOverrun
                    else
                      let nextBits = grid ! byteIndex2 AND drop_bit (6 - bitOffset2) 3
                      in Inr (state OR push_bit (8 - bitOffset2) nextBits))
              else Inr state)"

text \<open>The coordinates every caller is expected to pass: both below \<^verbatim>\<open>GRID_SIZE\<close>.\<close>

definition inBounds :: "u8 \<Rightarrow> u8 \<Rightarrow> bool" where
  "inBounds x y = (unat x < GRID_SIZE \<and> unat y < GRID_SIZE)"

subsection \<open>Sequencing of operations that may overrun a buffer\<close>

definition thenF :: "fault + 'a \<Rightarrow> ('a \<Rightarrow> fault + 'b) \<Rightarrow> fault + 'b" where
  "thenF m f = (case m of Inl e \<Rightarrow> Inl e | Inr a \<Rightarrow> f a)"

subsection \<open>Ship catalogue and placement validator\<close>

text \<open>The roster \<^verbatim>\<open>ships[NUM_SHIPS]\<close> (lines 1775 to 1781): name and size.\<close>

definition ships :: "(string \<times> u8) list" where
  "ships = [(''Carrier'', 5), (''Battleship'', 4), (''Cruiser'', 3), (''Submarine'', 3),
            (''Destroyer'', 2)]"

text \<open>
  The cells visited by the loop \<^verbatim>\<open>for (uint8_t i = 0; i < size; i++)\<close> of
  \<^verbatim>\<open>canPlaceShip\<close> and \<^verbatim>\<open>placeShip\<close>, in order: \<^verbatim>\<open>(x + i, y)\<close> when horizontal,
  \<^verbatim>\<open>(x, y + i)\<close> otherwise. The sum is stored in a \<^verbatim>\<open>uint8_t\<close>, so it wraps at 256.
\<close>

definition footprint :: "u8 \<Rightarrow> u8 \<Rightarrow> u8 \<Rightarrow> bool \<Rightarrow> (u8 \<times> u8) list" where
  "footprint x y sz horizontal =
     map (\<lambda>i. if horizontal then (x + of_nat i, y) else (x, y + of_nat i)) [0..<unat sz]"

text \<open>The body of that loop in \<^verbatim>\<open>canPlaceShip\<close>: leave with false at the first non-empty cell.\<close>

fun cellsEmpty :: "grid \<Rightarrow> (u8 \<times> u8) list \<Rightarrow> fault + bool" where
  "cellsEmpty grid [] = Inr True"
| "cellsEmpty grid ((xi, yi) # cells) =
     thenF (getCellState grid xi yi)
       (\<lambda>c. if c \<noteq> CELL_EMPTY then Inr False else cellsEmpty grid cells)"

text \<open>
  \<^verbatim>\<open>canPlaceShip\<close> (lines 2052 to 2069). The comparison \<^verbatim>\<open>x + size > GRID_SIZE\<close> is made
  in \<^verbatim>\<open>int\<close>, without wrap-around.
\<close>

definition canPlaceShip :: "grid \<Rightarrow> u8 \<Rightarrow> u8 \<Rightarrow> u8 \<Rightarrow> bool \<Rightarrow> fault + bool" where
  "canPlaceShip grid x y sz horizontal =
     (if horizontal then
        (if unat x + unat sz > GRID_SIZE then Inr False
         else cellsEmpty grid (footprint x y sz True))
      else
        (if unat y + unat sz > GRID_SIZE then Inr False
         else cellsEmpty grid (footprint x y sz False)))"

text \<open>\<^verbatim>\<open>placeShip\<close> (lines 2071 to 2081): no validation, one write per footprint cell.\<close>

fun setCells :: "grid \<Rightarrow> (u8 \<times> u8) list \<Rightarrow> u8 \<Rightarrow> fault + grid" where
  "setCells grid [] state = Inr grid"
| "setCells grid ((xi, yi) # cells) state =
     thenF (setCellState grid xi yi state) (\<lambda>grid'. setCells grid' cells state)"

definition placeShip :: "grid \<Rightarrow> u8 \<Rightarrow> u8 \<Rightarrow> u8 \<Rightarrow> bool \<Rightarrow> fault + grid" where
  "placeShip grid x y sz horizontal = setCells grid (footprint x y sz horizontal) CELL_SHIP"

text \<open>
  \<^verbatim>\<open>countRemainingShips\<close> (lines 2488 to 2498): the number of cells in state
  \<^verbatim>\<open>CELL_SHIP\<close>, counted in a \<^verbatim>\<open>uint8_t\<close>; \<^verbatim>\<open>x\<close> is the outer loop, \<^verbatim>\<open>y\<close> the inner.
\<close>

definition allCells :: "(u8 \<times> u8) list" where
  "allCells = concat (map (\<lambda>x. map (\<lambda>y. (of_nat x, of_nat y)) [0..<GRID_SIZE]) [0..<GRID_SIZE])"

fun countShipCells :: "grid \<Rightarrow> (u8 \<times> u8) list \<Rightarrow> u8 \<Rightarrow> fault + u8" where
  "countShipCells grid [] shipsRemaining = Inr shipsRemaining"
| "countShipCells grid ((x, y) # cells) shipsRemaining =
     thenF (getCellState grid x y)
       (\<lambda>c. countShipCells grid cells
               (if c = CELL_SHIP then shipsRemaining + 1 else shipsRemaining))"

definition countRemainingShips :: "grid \<Rightarrow> fault + u8" where
  "countRemainingShips grid = countShipCells grid allCells 0"

subsection \<open>Game state\<close>

datatype GameState = WAITING_TO_START | PLACING_SHIPS | PLAYER_TURN | ARDUINO_TURN | GAME_OVER

datatype AttackMode = HUNT_MODE | TARGET_MODE

definition LOW :: u8 where "LOW = 0"
definition HIGH :: u8 where "HIGH = 1"

text \<open>The global variables of the sketch (lines 1787 to 1841).\<close>

record game =
  playerGrid :: grid
  arduinoGrid :: grid
  playerAttackGrid :: grid
  arduinoAttackGrid :: grid
  cursorX :: u8
  cursorY :: u8
  redButtonState :: u8
  lastRedButtonState :: u8
  blueButtonState :: u8
  lastBlueButtonState :: u8
  blueButtonPressTime :: u32
  blueButtonLongPressHandled :: bool
  blueButtonShortPress :: bool
  lastRedDebounceTime :: u32
  lastJoystickMoveTime :: u32
  joystickButtonState :: u8
  lastJoystickButtonState :: u8
  gameState :: GameState
  playerShipHorizontal :: bool
  arduinoAttackMode :: AttackMode
  lastHitX :: u8
  lastHitY :: u8
  targetIndex :: u8
  targetList :: "(u8 \<times> u8) list"
  targetListInitialized :: bool
  shipId :: u8

text \<open>
  The values the globals have when \<^verbatim>\<open>setup\<close> returns: the initialisers of lines 1787 to
  1841, and zero for the arrays and the variables declared without one. \<^verbatim>\<open>HIGH\<close> is 1.
\<close>

definition initialGame :: game where
  "initialGame =
     \<lparr>playerGrid = replicate totalGridBytes 0,
      arduinoGrid = replicate totalGridBytes 0,
      playerAttackGrid = replicate totalGridBytes 0,
      arduinoAttackGrid = replicate totalGridBytes 0,
      cursorX = 0, cursorY = 0,
      redButtonState = HIGH, lastRedButtonState = HIGH,
      blueButtonState = HIGH, lastBlueButtonState = HIGH,
      blueButtonPressTime = 0,
      blueButtonLongPressHandled = False, blueButtonShortPress = False,
      lastRedDebounceTime = 0, lastJoystickMoveTime = 0,
      joystickButtonState = HIGH, lastJoystickButtonState = HIGH,
      gameState = WAITING_TO_START,
      playerShipHorizontal = True,
      arduinoAttackMode = HUNT_MODE,
      lastHitX = 0, lastHitY = 0, targetIndex = 0,
      targetList = replicate 4 (0, 0),
      targetListInitialized = False,
      shipId = 0\<rparr>"

text \<open>
  What one pass of \<^verbatim>\<open>loop\<close> reads from the hardware: the three buttons, the two joystick
  axes (\<^verbatim>\<open>analogRead\<close>, an \<^verbatim>\<open>int16_t\<close>) and the clock \<^verbatim>\<open>millis()\<close> (an
  \<^verbatim>\<open>unsigned long\<close> of 32 bits). The clock is taken to stand still during one pass.
\<close>

record pins =
  redPin :: u8
  bluePin :: u8
  joystickButtonPin :: u8
  joystickX :: int
  joystickY :: int
  millis :: u32

definition JOYSTICK_THRESHOLD :: int where "JOYSTICK_THRESHOLD = 200"
definition JOYSTICK_CENTER :: int where "JOYSTICK_CENTER = 512"
definition JOYSTICK_MOVE_DELAY :: u32 where "JOYSTICK_MOVE_DELAY = 200"
definition redDebounceDelay :: u32 where "redDebounceDelay = 50"

text \<open>
  The generator behind \<^verbatim>\<open>random(howsmall, howbig)\<close> belongs to the Arduino core, not to the
  sketch. It is a parameter here: a stream of the raw values of \<^verbatim>\<open>random()\<close>, one per
  call, from which the core computes \<^verbatim>\<open>random() % (howbig - howsmall) + howsmall\<close>.
\<close>

definition arduino_random :: "nat \<Rightarrow> nat \<Rightarrow> nat \<Rightarrow> nat" where
  "arduino_random howsmall howbig r =
     (if howsmall \<ge> howbig then howsmall else r mod (howbig - howsmall) + howsmall)"

subsection \<open>Reset and placement\<close>

text \<open>\<^verbatim>\<open>initializeGrids\<close> (lines 2024 to 2030): \<^verbatim>\<open>memset\<close> of each array to zero.\<close>

definition initializeGrids :: "game \<Rightarrow> game" where
  "initializeGrids g =
     g\<lparr>playerGrid := replicate (length (playerGrid g)) 0,
       arduinoGrid := replicate (length (arduinoGrid g)) 0,
       playerAttackGrid := replicate (length (playerAttackGrid g)) 0,
       arduinoAttackGrid := replicate (length (arduinoAttackGrid g)) 0\<rparr>"

text \<open>
  The loop \<^verbatim>\<open>while (!placed)\<close> of \<^verbatim>\<open>placeArduinoShips\<close> (lines 2038 to 2048): three draws,
  then place or draw again. It has no retry bound; a run that never leaves it is \<open>None\<close>.
\<close>

partial_function (option) placeOneShip ::
  "grid \<Rightarrow> u8 \<Rightarrow> nat stream \<Rightarrow> (fault + grid \<times> nat stream) option" where
  "placeOneShip grid shipSize rs =
     (let x = of_nat (arduino_random 0 GRID_SIZE (shd rs));
          y = of_nat (arduino_random 0 GRID_SIZE (shd (stl rs)));
          horizontal = (arduino_random 0 2 (shd (stl (stl rs))) \<noteq> 0);
          rs' = stl (stl (stl rs))
      in case canPlaceShip grid x y shipSize horizontal of
           Inl e \<Rightarrow> Some (Inl e)
         | Inr ok \<Rightarrow>
             if ok then
               Some (thenF (placeShip grid x y shipSize horizontal) (\<lambda>grid'. Inr (grid', rs')))
             else placeOneShip grid shipSize rs')"

text \<open>The loop over the roster of \<^verbatim>\<open>placeArduinoShips\<close> (lines 2032 to 2050).\<close>

fun placeRoster ::
  "u8 list \<Rightarrow> grid \<Rightarrow> nat stream \<Rightarrow> (fault + grid \<times> nat stream) option" where
  "placeRoster [] grid rs = Some (Inr (grid, rs))"
| "placeRoster (shipSize # sizes) grid rs =
     (case placeOneShip grid shipSize rs of
        None \<Rightarrow> None
      | Some (Inl e) \<Rightarrow> Some (Inl e)
      | Some (Inr (grid', rs')) \<Rightarrow> placeRoster sizes grid' rs')"

definition placeArduinoShips :: "game \<Rightarrow> nat stream \<Rightarrow> (fault + game \<times> nat stream) option" where
  "placeArduinoShips g rs =
     (case placeRoster (map snd ships) (arduinoGrid g) rs of
        None \<Rightarrow> None
      | Some (Inl e) \<Rightarrow> Some (Inl e)
      | Some (Inr (grid', rs')) \<Rightarrow> Some (Inr (g\<lparr>arduinoGrid := grid'\<rparr>, rs')))"

text \<open>\<^verbatim>\<open>resetGame\<close> (lines 1975 to 2022).\<close>

definition resetGame :: "game \<Rightarrow> nat stream \<Rightarrow> (fault + game \<times> nat stream) option" where
  "resetGame g rs =
     (case placeArduinoShips (initializeGrids g) rs of
        None \<Rightarrow> None
      | Some (Inl e) \<Rightarrow> Some (Inl e)
      | Some (Inr (g1, rs')) \<Rightarrow>
          Some (Inr (g1\<lparr>cursorX := 0, cursorY := 0,
                        lastRedButtonState := HIGH, lastBlueButtonState := HIGH,
                        blueButtonPressTime := 0, blueButtonLongPressHandled := False,
                        blueButtonShortPress := False,
                        lastJoystickButtonState := HIGH,
                        playerShipHorizontal := True,
                        shipId := 0,
                        arduinoAttackMode := HUNT_MODE,
                        lastHitX := 0, lastHitY := 0, targetIndex := 0,
                        targetListInitialized := False,
                        gameState := PLACING_SHIPS\<rparr>, rs')))"

text \<open>\<^verbatim>\<open>updateCursorPosition\<close> (lines 2184 to 2215); the result \<^verbatim>\<open>moved\<close> only drives the display.\<close>

definition updateCursorPosition :: "pins \<Rightarrow> game \<Rightarrow> game" where
  "updateCursorPosition p g =
     (if millis p - lastJoystickMoveTime g > JOYSTICK_MOVE_DELAY then
        (let g1 =
               (if joystickX p < JOYSTICK_CENTER - JOYSTICK_THRESHOLD then
                  g\<lparr>cursorX := (if cursorX g > 0 then cursorX g - 1 else 0),
                    lastJoystickMoveTime := millis p\<rparr>
                else if joystickX p > JOYSTICK_CENTER + JOYSTICK_THRESHOLD then
                  g\<lparr>cursorX := (if unat (cursorX g) < GRID_SIZE - 1 then cursorX g + 1
                                 else of_nat (GRID_SIZE - 1)),
                    lastJoystickMoveTime := millis p\<rparr>
                else g)
         in if joystickY p > JOYSTICK_CENTER + JOYSTICK_THRESHOLD then
              g1\<lparr>cursorY := (if cursorY g1 > 0 then cursorY g1 - 1 else 0),
                 lastJoystickMoveTime := millis p\<rparr>
            else if joystickY p < JOYSTICK_CENTER - JOYSTICK_THRESHOLD then
              g1\<lparr>cursorY := (if unat (cursorY g1) < GRID_SIZE - 1 then cursorY g1 + 1
                               else of_nat (GRID_SIZE - 1)),
                 lastJoystickMoveTime := millis p\<rparr>
            else g1)
      else g)"

text \<open>\<^verbatim>\<open>handleJoystickButton\<close> (lines 2217 to 2228).\<close>

definition handleJoystickButton :: "pins \<Rightarrow> game \<Rightarrow> game" where
  "handleJoystickButton p g =
     (let g1 = g\<lparr>joystickButtonState := joystickButtonPin p\<rparr>
      in if joystickButtonState g1 \<noteq> lastJoystickButtonState g1 then
           (if joystickButtonState g1 = LOW
            then g1\<lparr>playerShipHorizontal := \<not> playerShipHorizontal g1\<rparr>
            else g1)\<lparr>lastJoystickButtonState := joystickButtonState g1\<rparr>
         else g1)"

text \<open>
  The debounced edge detection shared by \<^verbatim>\<open>playerPlaceShips\<close> and \<^verbatim>\<open>playerAttack\<close>
  (lines 2109 to 2119 and 2237 to 2247): the state after the two outer tests, and
  whether the innermost test \<^verbatim>\<open>redButtonState == LOW\<close> is reached and true.
\<close>

definition redButtonPressed :: "pins \<Rightarrow> game \<Rightarrow> game \<times> bool" where
  "redButtonPressed p g =
     (let g1 = (if redPin p \<noteq> lastRedButtonState g
                then g\<lparr>lastRedDebounceTime := millis p\<rparr> else g)
      in if millis p - lastRedDebounceTime g1 > redDebounceDelay then
           (if redPin p \<noteq> redButtonState g1
            then (g1\<lparr>redButtonState := redPin p\<rparr>, redPin p = LOW)
            else (g1, False))
         else (g1, False))"

text \<open>
  \<^verbatim>\<open>playerPlaceShips\<close> (lines 2083 to 2182). The size of the current ship is read from
  the roster at \<^verbatim>\<open>shipId\<close>, which the first test keeps below \<^verbatim>\<open>NUM_SHIPS\<close>.
\<close>

definition playerPlaceShips :: "pins \<Rightarrow> game \<Rightarrow> fault + game" where
  "playerPlaceShips p g =
     (if unat (shipId g) \<ge> NUM_SHIPS then Inr (g\<lparr>gameState := PLAYER_TURN\<rparr>)
      else
        let currentSize = snd (ships ! unat (shipId g));
            g1 = updateCursorPosition p g;
            (g2, pressed) = redButtonPressed p g1
        in thenF
             (if pressed then
                thenF (canPlaceShip (playerGrid g2) (cursorX g2) (cursorY g2) currentSize
                         (playerShipHorizontal g2))
                  (\<lambda>ok. if ok then
                           thenF (placeShip (playerGrid g2) (cursorX g2) (cursorY g2) currentSize
                                    (playerShipHorizontal g2))
                             (\<lambda>grid'. Inr (g2\<lparr>playerGrid := grid', shipId := shipId g2 + 1\<rparr>))
                         else Inr g2)
              else Inr g2)
             (\<lambda>g3. Inr (handleJoystickButton p (g3\<lparr>lastRedButtonState := redPin p\<rparr>))))"

subsection \<open>Attack resolution by the player\<close>

text \<open>
  The block of \<^verbatim>\<open>playerAttack\<close> run when the red button is pressed (lines 2248 to 2314).
  The result also tells whether the function left through \<^verbatim>\<open>return\<close> (after a win),
  which skips the rest of \<^verbatim>\<open>playerAttack\<close>.
\<close>

definition playerFire :: "game \<Rightarrow> fault + game \<times> bool" where
  "playerFire g =
     thenF (getCellState (playerAttackGrid g) (cursorX g) (cursorY g))
       (\<lambda>tried.
          if tried = CELL_EMPTY then
            thenF (getCellState (arduinoGrid g) (cursorX g) (cursorY g))
              (\<lambda>cellState.
                 thenF
                   (if cellState = CELL_SHIP then
                      thenF (setCellState (playerAttackGrid g) (cursorX g) (cursorY g) CELL_HIT)
                        (\<lambda>pa. thenF (setCellState (arduinoGrid g) (cursorX g) (cursorY g) CELL_HIT)
                                 (\<lambda>ag. Inr (g\<lparr>playerAttackGrid := pa, arduinoGrid := ag\<rparr>)))
                    else
                      thenF (setCellState (playerAttackGrid g) (cursorX g) (cursorY g) CELL_MISS)
                        (\<lambda>pa. thenF (setCellState (arduinoGrid g) (cursorX g) (cursorY g) CELL_MISS)
                                 (\<lambda>ag. Inr (g\<lparr>playerAttackGrid := pa, arduinoGrid := ag\<rparr>))))
                   (\<lambda>g1. thenF (countRemainingShips (arduinoGrid g1))
                            (\<lambda>arduinoShipsRemaining.
                               if arduinoShipsRemaining = 0
                               then Inr (g1\<lparr>gameState := GAME_OVER\<rparr>, True)
                               else Inr (g1\<lparr>gameState := ARDUINO_TURN\<rparr>, False))))
          else Inr (g, False))"

text \<open>\<^verbatim>\<open>playerAttack\<close> (lines 2230 to 2325).\<close>

definition playerAttack :: "pins \<Rightarrow> game \<Rightarrow> fault + game" where
  "playerAttack p g =
     (let g1 = updateCursorPosition p g;
          (g2, pressed) = redButtonPressed p g1
      in if pressed then
           thenF (playerFire g2)
             (\<lambda>(g3, returned). if returned then Inr g3
                                else Inr (g3\<lparr>lastRedButtonState := redPin p\<rparr>))
         else Inr (g2\<lparr>lastRedButtonState := redPin p\<rparr>))"

subsection \<open>The opponent: hunt and target\<close>

text \<open>
  The loop \<^verbatim>\<open>do ... while (!validAttack)\<close> of hunt mode (lines 2333 to 2339): two draws,
  then accept the cell when it is untried or draw again. A run that never leaves the
  loop is \<open>None\<close>.
\<close>

partial_function (option) huntSample ::
  "grid \<Rightarrow> nat stream \<Rightarrow> (fault + u8 \<times> u8 \<times> nat stream) option" where
  "huntSample grid rs =
     (let x = of_nat (arduino_random 0 GRID_SIZE (shd rs));
          y = of_nat (arduino_random 0 GRID_SIZE (shd (stl rs)));
          rs' = stl (stl rs)
      in case getCellState grid x y of
           Inl e \<Rightarrow> Some (Inl e)
         | Inr c \<Rightarrow> if c = CELL_EMPTY then Some (Inr (x, y, rs')) else huntSample grid rs')"

text \<open>
  The hit and miss branches (lines 2343 to 2377 in hunt mode, the same statements at lines
  2421 to 2457 in target mode).
\<close>

definition arduinoResolve :: "game \<Rightarrow> u8 \<Rightarrow> u8 \<Rightarrow> fault + game" where
  "arduinoResolve g x y =
     thenF (getCellState (playerGrid g) x y)
       (\<lambda>cellState.
          if cellState = CELL_SHIP then
            thenF (setCellState (arduinoAttackGrid g) x y CELL_HIT)
              (\<lambda>aa. thenF (setCellState (playerGrid g) x y CELL_HIT)
                       (\<lambda>pg. Inr (g\<lparr>arduinoAttackGrid := aa, playerGrid := pg,
                                    lastHitX := x, lastHitY := y,
                                    arduinoAttackMode := TARGET_MODE,
                                    targetIndex := 0,
                                    targetListInitialized := False\<rparr>)))
          else
            thenF (setCellState (arduinoAttackGrid g) x y CELL_MISS)
              (\<lambda>aa. thenF (setCellState (playerGrid g) x y CELL_MISS)
                       (\<lambda>pg. Inr (g\<lparr>arduinoAttackGrid := aa, playerGrid := pg\<rparr>))))"

text \<open>The win check that ends \<^verbatim>\<open>arduinoAttack\<close> (lines 2466 to 2481).\<close>

definition arduinoWinCheck :: "game \<Rightarrow> fault + game" where
  "arduinoWinCheck g =
     thenF (countRemainingShips (playerGrid g))
       (\<lambda>playerShipsRemaining.
          if playerShipsRemaining = 0 then Inr (g\<lparr>gameState := GAME_OVER\<rparr>)
          else Inr (g\<lparr>gameState := PLAYER_TURN\<rparr>))"

text \<open>
  The initialisation of the target list (lines 2380 to 2407). Only the first \<^verbatim>\<open>idx\<close>
  entries are written; the others keep what they held.
\<close>

definition buildTargetList :: "game \<Rightarrow> game" where
  "buildTargetList g =
     (let t0 = targetList g; i0 = (0::nat);
          (t1, i1) = (if lastHitX g > 0
                      then (t0[i0 := (lastHitX g - 1, lastHitY g)], i0 + 1) else (t0, i0));
          (t2, i2) = (if unat (lastHitX g) < GRID_SIZE - 1
                      then (t1[i1 := (lastHitX g + 1, lastHitY g)], i1 + 1) else (t1, i1));
          (t3, i3) = (if lastHitY g > 0
                      then (t2[i2 := (lastHitX g, lastHitY g - 1)], i2 + 1) else (t2, i2));
          (t4, i4) = (if unat (lastHitY g) < GRID_SIZE - 1
                      then (t3[i3 := (lastHitX g, lastHitY g + 1)], i3 + 1) else (t3, i3))
      in g\<lparr>targetIndex := 0, targetList := t4, targetListInitialized := True\<rparr>)"

text \<open>The guard \<^verbatim>\<open>if (!targetListInitialized)\<close> around that initialisation.\<close>

definition targetsReady :: "game \<Rightarrow> game" where
  "targetsReady g = (if \<not> targetListInitialized g then buildTargetList g else g)"

text \<open>
  The loop \<^verbatim>\<open>while (targetIndex < 4)\<close> (lines 2409 to 2418). The result is
  \<^verbatim>\<open>validAttack\<close>, \<^verbatim>\<open>x\<close>, \<^verbatim>\<open>y\<close> and \<^verbatim>\<open>targetIndex\<close> on leaving the loop.
\<close>

function targetScan ::
  "grid \<Rightarrow> (u8 \<times> u8) list \<Rightarrow> u8 \<Rightarrow> u8 \<Rightarrow> u8 \<Rightarrow> fault + bool \<times> u8 \<times> u8 \<times> u8" where
  "targetScan grid targets ti x y =
     (if ti < 4 then
        (if length targets \<le> unat ti then Inl BufferOverrun
         else
           let x' = fst (targets ! unat ti); y' = snd (targets ! unat ti); ti' = ti + 1
           in case getCellState grid x' y' of
                Inl e \<Rightarrow> Inl e
              | Inr c \<Rightarrow> if c = CELL_EMPTY then Inr (True, x', y', ti')
                        else targetScan grid targets ti' x' y')
      else Inr (False, x, y, ti))"
  by pat_completeness auto
termination
proof (relation "measure (\<lambda>(grid, targets, ti, x, y). 4 - unat ti)")
  show "wf (measure (\<lambda>(grid, targets, ti, x, y). 4 - unat ti))" by simp
next
  fix grid :: grid and targets :: "(u8 \<times> u8) list" and ti x y xa xb xc :: u8
  assume "ti < 4" and "xc = ti + 1"
  from \<open>ti < 4\<close> have "unat ti < 4" by (simp add: word_less_nat_alt)
  moreover from this have "unat (ti + 1) = unat ti + 1"
    by (simp add: unat_word_ariths)
  ultimately show "((grid, targets, xc, xa, xb), grid, targets, ti, x, y)
      \<in> measure (\<lambda>(grid, targets, ti, x, y). 4 - unat ti)"
    using \<open>xc = ti + 1\<close> by simp
qed

declare targetScan.simps [simp del]

text \<open>
  \<^verbatim>\<open>arduinoAttack\<close> (lines 2327 to 2482), with its call of itself when the target list
  yields no untried cell. Every path that resolves an attack at \<^verbatim>\<open>(x, y)\<close> runs the hit or
  miss branch and then the win check.
\<close>

definition arduinoResolveAndCheck :: "game \<Rightarrow> u8 \<Rightarrow> u8 \<Rightarrow> fault + game" where
  "arduinoResolveAndCheck g x y = thenF (arduinoResolve g x y) arduinoWinCheck"

partial_function (option) arduinoAttack ::
  "game \<Rightarrow> nat stream \<Rightarrow> (fault + game \<times> nat stream) option" where
  "arduinoAttack g rs =
     (if arduinoAttackMode g = HUNT_MODE then
        Option.bind (huntSample (arduinoAttackGrid g) rs)
          (\<lambda>r. Some (thenF r
                        (\<lambda>(x, y, rs').
                           thenF (arduinoResolveAndCheck g x y) (\<lambda>g1. Inr (g1, rs')))))
      else
        (let g1 = targetsReady g
         in case targetScan (arduinoAttackGrid g1) (targetList g1) (targetIndex g1) 0 0 of
              Inl e \<Rightarrow> Some (Inl e)
            | Inr (validAttack, x, y, ti) \<Rightarrow>
                if validAttack then
                  Some (thenF (arduinoResolveAndCheck (g1\<lparr>targetIndex := ti\<rparr>) x y)
                          (\<lambda>g2. Inr (g2, rs)))
                else arduinoAttack (g1\<lparr>targetIndex := ti, arduinoAttackMode := HUNT_MODE\<rparr>) rs))"

subsection \<open>The strict placement validator of the serial-monitor sketch\<close>

text \<open>
  \<^verbatim>\<open>battle_ship_serial_monitor.ino\<close> keeps each grid as \<^verbatim>\<open>int8_t grid[12][12]\<close>, indexed
  \<^verbatim>\<open>grid[x][y]\<close>: 0 is empty, a positive value is a ship identifier, -1 a hit ship part.
  An \<^verbatim>\<open>int8_t\<close> is an \<^typ>\<open>8 word\<close> read through \<^const>\<open>sint\<close>. An index outside either
  dimension is undefined behaviour and gives \<open>Inl BufferOverrun\<close>.
\<close>

type_synonym sgrid = "u8 list list"

definition GRID_SIZE_sm :: nat where
  "GRID_SIZE_sm = 12"

definition NUM_SHIPS_sm :: nat where
  "NUM_SHIPS_sm = 7"

definition EMPTY :: u8 where "EMPTY = 0"
definition SHIP_PRESENT :: u8 where "SHIP_PRESENT = 1"
definition SHIP_HIT :: u8 where "SHIP_HIT = - 1"

definition ships_sm :: "(string \<times> u8) list" where
  "ships_sm = [(''Carrier'', 5), (''Battleship'', 4), (''Cruiser'', 3), (''Submarine'', 3),
               (''Destroyer'', 2), (''Patrol Boat'', 2), (''Dinghy'', 1)]"

definition cellAt :: "sgrid \<Rightarrow> nat \<Rightarrow> nat \<Rightarrow> fault + u8" where
  "cellAt grid i j =
     (if i < length grid \<and> j < length (grid ! i) then Inr (grid ! i ! j) else Inl BufferOverrun)"

definition setAt :: "sgrid \<Rightarrow> nat \<Rightarrow> nat \<Rightarrow> u8 \<Rightarrow> fault + sgrid" where
  "setAt grid i j v =
     (if i < length grid \<and> j < length (grid ! i) then Inr (grid[i := (grid ! i)[j := v]])
      else Inl BufferOverrun)"

definition wellFormed :: "sgrid \<Rightarrow> bool" where
  "wellFormed grid =
     (length grid = GRID_SIZE_sm \<and> (\<forall>row \<in> set grid. length row = GRID_SIZE_sm))"

text \<open>
  The two loops \<^verbatim>\<open>for (int8_t dx = -1; dx <= 1; dx++)\<close>,
  \<^verbatim>\<open>for (int8_t dy = -1; dy <= 1; dy++)\<close>: the pairs in the order they are visited.
\<close>

definition offsets :: "(int \<times> int) list" where
  "offsets = [(- 1, - 1), (- 1, 0), (- 1, 1), (0, - 1), (0, 0), (0, 1), (1, - 1), (1, 0), (1, 1)]"

text \<open>
  \<^verbatim>\<open>int8_t nx = xi + dx;\<close> The sum is formed in \<^verbatim>\<open>int\<close> and converted to eight signed
  bits.
\<close>

definition int8_sum :: "u8 \<Rightarrow> int \<Rightarrow> int" where
  "int8_sum xi dx = sint (word_of_int (uint xi + dx) :: 8 word)"

text \<open>
  The body of those loops (lines 301 to 311): leave with false at the first in-bounds
  neighbour that is not empty and is not the cell \<^verbatim>\<open>(xi, yi)\<close> itself.
\<close>

fun surroundingsEmpty :: "sgrid \<Rightarrow> u8 \<Rightarrow> u8 \<Rightarrow> (int \<times> int) list \<Rightarrow> fault + bool" where
  "surroundingsEmpty grid xi yi [] = Inr True"
| "surroundingsEmpty grid xi yi ((dx, dy) # ds) =
     (let nx = int8_sum xi dx; ny = int8_sum yi dy
      in if nx \<ge> 0 \<and> nx < int GRID_SIZE_sm \<and> ny \<ge> 0 \<and> ny < int GRID_SIZE_sm then
           thenF (cellAt grid (nat nx) (nat ny))
             (\<lambda>c. if c \<noteq> EMPTY \<and> \<not> (nx = uint xi \<and> ny = uint yi) then Inr False
                   else surroundingsEmpty grid xi yi ds)
         else surroundingsEmpty grid xi yi ds)"

text \<open>The body of the loop over the footprint (lines 293 to 312).\<close>

fun cellsClear :: "sgrid \<Rightarrow> (u8 \<times> u8) list \<Rightarrow> fault + bool" where
  "cellsClear grid [] = Inr True"
| "cellsClear grid ((xi, yi) # cells) =
     thenF (cellAt grid (unat xi) (unat yi))
       (\<lambda>c. if c \<noteq> EMPTY then Inr False
             else thenF (surroundingsEmpty grid xi yi offsets)
                    (\<lambda>clear. if \<not> clear then Inr False else cellsClear grid cells))"

text \<open>\<^verbatim>\<open>canPlaceShip\<close> of the serial-monitor sketch (lines 289 to 338).\<close>

definition canPlaceShip_sm :: "sgrid \<Rightarrow> u8 \<Rightarrow> u8 \<Rightarrow> u8 \<Rightarrow> bool \<Rightarrow> fault + bool" where
  "canPlaceShip_sm grid x y sz horizontal =
     (if horizontal then
        (if unat x + unat sz > GRID_SIZE_sm then Inr False
         else cellsClear grid (footprint x y sz True))
      else
        (if unat y + unat sz > GRID_SIZE_sm then Inr False
         else cellsClear grid (footprint x y sz False)))"

subsection \<open>The placement phase of the unnamed sketch part_001\<close>

text \<open>
  The sketch \<^verbatim>\<open>part_001\<close> has the same 12 x 12 grids of bytes, a validator without the
  adjacency rule, and keeps the number of ships placed in a variable
  \<^verbatim>\<open>static uint8_t shipId = 0;\<close> local to \<^verbatim>\<open>playerPlaceShips\<close> (line 247). A static local
  lives as long as the program does, so it is a field of the state.
\<close>

record game_p1 =
  playerGrid_p1 :: sgrid
  arduinoGrid_p1 :: sgrid
  playerAttackGrid_p1 :: sgrid
  arduinoAttackGrid_p1 :: sgrid
  cursorX_p1 :: u8
  cursorY_p1 :: u8
  redButtonState_p1 :: u8
  lastRedButtonState_p1 :: u8
  blueButtonState_p1 :: u8
  lastBlueButtonState_p1 :: u8
  lastJoystickMoveTime_p1 :: u32
  lastRedDebounceTime_p1 :: u32
  lastBlueDebounceTime_p1 :: u32
  gameState_p1 :: GameState
  playerShipHorizontal_p1 :: bool
  shipId_p1 :: u8

definition debounceDelay :: u32 where "debounceDelay = 50"

text \<open>\<^verbatim>\<open>initializeGrids\<close> (lines 186 to 196): every cell of the four grids is set to 0.\<close>

definition clearedGrid :: "sgrid \<Rightarrow> sgrid" where
  "clearedGrid grid = map (map (\<lambda>c. 0)) grid"

definition initializeGrids_p1 :: "game_p1 \<Rightarrow> game_p1" where
  "initializeGrids_p1 g =
     g\<lparr>playerGrid_p1 := clearedGrid (playerGrid_p1 g),
       arduinoGrid_p1 := clearedGrid (arduinoGrid_p1 g),
       playerAttackGrid_p1 := clearedGrid (playerAttackGrid_p1 g),
       arduinoAttackGrid_p1 := clearedGrid (arduinoAttackGrid_p1 g)\<rparr>"

text \<open>
  \<^verbatim>\<open>canPlaceShip\<close> (lines 219 to 232) and \<^verbatim>\<open>placeShip\<close> (lines 234 to 244). The index
  \<^verbatim>\<open>x + i\<close> is an \<^verbatim>\<open>int\<close> here and does not wrap.
\<close>

definition footprint_p1 :: "u8 \<Rightarrow> u8 \<Rightarrow> u8 \<Rightarrow> bool \<Rightarrow> (nat \<times> nat) list" where
  "footprint_p1 x y sz horizontal =
     map (\<lambda>i. if horizontal then (unat x + i, unat y) else (unat x, unat y + i)) [0..<unat sz]"

fun cellsEmpty_p1 :: "sgrid \<Rightarrow> (nat \<times> nat) list \<Rightarrow> fault + bool" where
  "cellsEmpty_p1 grid [] = Inr True"
| "cellsEmpty_p1 grid ((i, j) # cells) =
     thenF (cellAt grid i j) (\<lambda>c. if c \<noteq> EMPTY then Inr False else cellsEmpty_p1 grid cells)"

definition canPlaceShip_p1 :: "sgrid \<Rightarrow> u8 \<Rightarrow> u8 \<Rightarrow> u8 \<Rightarrow> bool \<Rightarrow> fault + bool" where
  "canPlaceShip_p1 grid x y sz horizontal =
     (if horizontal then
        (if unat x + unat sz > GRID_SIZE_sm then Inr False
         else cellsEmpty_p1 grid (footprint_p1 x y sz True))
      else
        (if unat y + unat sz > GRID_SIZE_sm then Inr False
         else cellsEmpty_p1 grid (footprint_p1 x y sz False)))"

fun setCells_p1 :: "sgrid \<Rightarrow> (nat \<times> nat) list \<Rightarrow> u8 \<Rightarrow> fault + sgrid" where
  "setCells_p1 grid [] v = Inr grid"
| "setCells_p1 grid ((i, j) # cells) v =
     thenF (setAt grid i j v) (\<lambda>grid'. setCells_p1 grid' cells v)"

definition placeShip_p1 :: "sgrid \<Rightarrow> u8 \<Rightarrow> u8 \<Rightarrow> u8 \<Rightarrow> bool \<Rightarrow> u8 \<Rightarrow> fault + sgrid" where
  "placeShip_p1 grid x y sz horizontal sid =
     setCells_p1 grid (footprint_p1 x y sz horizontal) SHIP_PRESENT"

text \<open>\<^verbatim>\<open>placeArduinoShips\<close> (lines 198 to 217), as in the first sketch.\<close>

partial_function (option) placeOneShip_p1 ::
  "sgrid \<Rightarrow> u8 \<Rightarrow> u8 \<Rightarrow> nat stream \<Rightarrow> (fault + sgrid \<times> nat stream) option" where
  "placeOneShip_p1 grid shipSize sid rs =
     (let x = of_nat (arduino_random 0 GRID_SIZE_sm (shd rs));
          y = of_nat (arduino_random 0 GRID_SIZE_sm (shd (stl rs)));
          horizontal = (arduino_random 0 2 (shd (stl (stl rs))) \<noteq> 0);
          rs' = stl (stl (stl rs))
      in case canPlaceShip_p1 grid x y shipSize horizontal of
           Inl e \<Rightarrow> Some (Inl e)
         | Inr ok \<Rightarrow>
             if ok then
               Some (thenF (placeShip_p1 grid x y shipSize horizontal (sid + 1))
                       (\<lambda>grid'. Inr (grid', rs')))
             else placeOneShip_p1 grid shipSize sid rs')"

fun placeRoster_p1 ::
  "(u8 \<times> u8) list \<Rightarrow> sgrid \<Rightarrow> nat stream \<Rightarrow> (fault + sgrid \<times> nat stream) option" where
  "placeRoster_p1 [] grid rs = Some (Inr (grid, rs))"
| "placeRoster_p1 ((sid, shipSize) # rest) grid rs =
     (case placeOneShip_p1 grid shipSize sid rs of
        None \<Rightarrow> None
      | Some (Inl e) \<Rightarrow> Some (Inl e)
      | Some (Inr (grid', rs')) \<Rightarrow> placeRoster_p1 rest grid' rs')"

definition placeArduinoShips_p1 ::
  "game_p1 \<Rightarrow> nat stream \<Rightarrow> (fault + game_p1 \<times> nat stream) option" where
  "placeArduinoShips_p1 g rs =
     (case placeRoster_p1 (zip (map of_nat [0..<NUM_SHIPS_sm]) (map snd ships_sm))
             (arduinoGrid_p1 g) rs of
        None \<Rightarrow> None
      | Some (Inl e) \<Rightarrow> Some (Inl e)
      | Some (Inr (grid', rs')) \<Rightarrow> Some (Inr (g\<lparr>arduinoGrid_p1 := grid'\<rparr>, rs')))"

text \<open>
  \<^verbatim>\<open>resetGame\<close> (lines 157 to 184). It assigns the cursor, the two last button states and
  the phase; the static \<^verbatim>\<open>shipId\<close> is out of its scope.
\<close>

definition resetGame_p1 ::
  "game_p1 \<Rightarrow> nat stream \<Rightarrow> (fault + game_p1 \<times> nat stream) option" where
  "resetGame_p1 g rs =
     (case placeArduinoShips_p1 (initializeGrids_p1 g) rs of
        None \<Rightarrow> None
      | Some (Inl e) \<Rightarrow> Some (Inl e)
      | Some (Inr (g1, rs')) \<Rightarrow>
          Some (Inr (g1\<lparr>cursorX_p1 := 0, cursorY_p1 := 0,
                        lastRedButtonState_p1 := HIGH, lastBlueButtonState_p1 := HIGH,
                        gameState_p1 := PLACING_SHIPS\<rparr>, rs')))"

text \<open>\<^verbatim>\<open>updateCursorPosition\<close> (lines 345 to 373).\<close>

definition updateCursorPosition_p1 :: "pins \<Rightarrow> game_p1 \<Rightarrow> game_p1" where
  "updateCursorPosition_p1 p g =
     (if millis p - lastJoystickMoveTime_p1 g > JOYSTICK_MOVE_DELAY then
        (let g1 =
               (if joystickX p < JOYSTICK_CENTER - JOYSTICK_THRESHOLD then
                  g\<lparr>cursorX_p1 := (if cursorX_p1 g > 0 then cursorX_p1 g - 1 else 0),
                    lastJoystickMoveTime_p1 := millis p\<rparr>
                else if joystickX p > JOYSTICK_CENTER + JOYSTICK_THRESHOLD then
                  g\<lparr>cursorX_p1 := (if unat (cursorX_p1 g) < GRID_SIZE_sm - 1
                                     then cursorX_p1 g + 1 else of_nat (GRID_SIZE_sm - 1)),
                    lastJoystickMoveTime_p1 := millis p\<rparr>
                else g)
         in if joystickY p < JOYSTICK_CENTER - JOYSTICK_THRESHOLD then
              g1\<lparr>cursorY_p1 := (if cursorY_p1 g1 > 0 then cursorY_p1 g1 - 1 else 0),
                 lastJoystickMoveTime_p1 := millis p\<rparr>
            else if joystickY p > JOYSTICK_CENTER + JOYSTICK_THRESHOLD then
              g1\<lparr>cursorY_p1 := (if unat (cursorY_p1 g1) < GRID_SIZE_sm - 1
                                   then cursorY_p1 g1 + 1 else of_nat (GRID_SIZE_sm - 1)),
                 lastJoystickMoveTime_p1 := millis p\<rparr>
            else g1)
      else g)"

text \<open>
  \<^verbatim>\<open>playerPlaceShips\<close> (lines 246 to 343): the test of the static counter, the red button
  that places the current ship, the blue button that toggles the orientation.
\<close>

definition playerPlaceShips_p1 :: "pins \<Rightarrow> game_p1 \<Rightarrow> fault + game_p1" where
  "playerPlaceShips_p1 p g =
     (if unat (shipId_p1 g) \<ge> NUM_SHIPS_sm then Inr (g\<lparr>gameState_p1 := PLAYER_TURN\<rparr>)
      else
        let currentSize = snd (ships_sm ! unat (shipId_p1 g));
            g1 = updateCursorPosition_p1 p g;
            g2 = (if redPin p \<noteq> lastRedButtonState_p1 g1
                  then g1\<lparr>lastRedDebounceTime_p1 := millis p\<rparr> else g1)
        in thenF
             (if millis p - lastRedDebounceTime_p1 g2 > debounceDelay
                 \<and> redPin p \<noteq> redButtonState_p1 g2 then
                (let g3 = g2\<lparr>redButtonState_p1 := redPin p\<rparr>
                 in if redButtonState_p1 g3 = LOW then
                      thenF (canPlaceShip_p1 (playerGrid_p1 g3) (cursorX_p1 g3) (cursorY_p1 g3)
                               currentSize (playerShipHorizontal_p1 g3))
                        (\<lambda>ok. if ok then
                                 thenF (placeShip_p1 (playerGrid_p1 g3) (cursorX_p1 g3)
                                          (cursorY_p1 g3) currentSize
                                          (playerShipHorizontal_p1 g3) (shipId_p1 g3 + 1))
                                   (\<lambda>grid'. Inr (g3\<lparr>playerGrid_p1 := grid',
                                                       shipId_p1 := shipId_p1 g3 + 1\<rparr>))
                               else Inr g3)
                    else Inr g3)
              else Inr g2)
             (\<lambda>g4.
                let g5 = g4\<lparr>lastRedButtonState_p1 := redPin p\<rparr>;
                    g6 = (if bluePin p \<noteq> lastBlueButtonState_p1 g5
                          then g5\<lparr>lastBlueDebounceTime_p1 := millis p\<rparr> else g5);
                    g7 = (if millis p - lastBlueDebounceTime_p1 g6 > debounceDelay
                             \<and> bluePin p \<noteq> blueButtonState_p1 g6 then
                            (let g8 = g6\<lparr>blueButtonState_p1 := bluePin p\<rparr>
                             in if blueButtonState_p1 g8 = LOW
                                then g8\<lparr>playerShipHorizontal_p1 := \<not> playerShipHorizontal_p1 g8\<rparr>
                                else g8)
                          else g6)
                in Inr (g7\<lparr>lastBlueButtonState_p1 := bluePin p\<rparr>)))"

text \<open>
  The state of \<^verbatim>\<open>part_001\<close> at the end of a game the player has played through: the phase
  is \<^verbatim>\<open>GAME_OVER\<close> and the static counter stands at \<^verbatim>\<open>NUM_SHIPS\<close>, as it has since the
  seventh ship was placed. The grids are given empty; \<^verbatim>\<open>resetGame\<close> clears them anyway.
\<close>

definition afterGame_p1 :: game_p1 where
  "afterGame_p1 =
     \<lparr>playerGrid_p1 = replicate 12 (replicate 12 0),
      arduinoGrid_p1 = replicate 12 (replicate 12 0),
      playerAttackGrid_p1 = replicate 12 (replicate 12 0),
      arduinoAttackGrid_p1 = replicate 12 (replicate 12 0),
      cursorX_p1 = 0, cursorY_p1 = 0,
      redButtonState_p1 = HIGH, lastRedButtonState_p1 = HIGH,
      blueButtonState_p1 = LOW, lastBlueButtonState_p1 = HIGH,
      lastJoystickMoveTime_p1 = 0, lastRedDebounceTime_p1 = 0, lastBlueDebounceTime_p1 = 0,
      gameState_p1 = GAME_OVER,
      playerShipHorizontal_p1 = True,
      shipId_p1 = 7\<rparr>"

text \<open>
  A random source under which the seven ships of the Arduino go, one per row from row 0,
  horizontally from column 0: each ship draws \<^verbatim>\<open>x = 0\<close>, its row, and \<^verbatim>\<open>horizontal = 1\<close>.
\<close>

definition rowsSource :: "nat stream" where
  "rowsSource =
     0 ## 0 ## 1 ## 0 ## 1 ## 1 ## 0 ## 2 ## 1 ## 0 ## 3 ## 1 ## 0 ## 4 ## 1 ## 0 ## 5 ## 1 ##
     0 ## 6 ## 1 ## sconst 0"

subsection \<open>The cell accessors of the second sketch\<close>

text \<open>
  The second sketch of \<^verbatim>\<open>battle_ship_test_code.ino\<close> keeps the byte index in a
  \<^verbatim>\<open>uint8_t\<close> and has no branch for a cell that spans two bytes.
\<close>

definition cellByteIndex_v2 :: "u8 \<Rightarrow> u8 \<Rightarrow> nat" where
  "cellByteIndex_v2 x y = unat (ucast (cellBitIndex x y div 8) :: u8)"

definition setCellState_v2 :: "grid \<Rightarrow> u8 \<Rightarrow> u8 \<Rightarrow> u8 \<Rightarrow> fault + grid" where
  "setCellState_v2 grid x y state =
     (let byteIndex = cellByteIndex_v2 x y;
          bitOffset = cellBitOffset x y
      in if length grid \<le> byteIndex then Inl BufferOverrun
         else
           let grid1 = grid[byteIndex := grid ! byteIndex AND NOT (push_bit bitOffset 3)]
           in Inr (grid1[byteIndex := grid1 ! byteIndex OR push_bit bitOffset (state AND 3)]))"

definition getCellState_v2 :: "grid \<Rightarrow> u8 \<Rightarrow> u8 \<Rightarrow> fault + u8" where
  "getCellState_v2 grid x y =
     (let byteIndex = cellByteIndex_v2 x y;
          bitOffset = cellBitOffset x y
      in if length grid \<le> byteIndex then Inl BufferOverrun
         else Inr (drop_bit bitOffset (grid ! byteIndex) AND 3))"

subsection \<open>Boards with empty rows\<close>

text \<open>
  \<open>rowsEmptyFrom grid k\<close>: the grid has its full shape and every cell of the rows
  \<open>k\<close>, \<open>k + 1\<close>, ... is empty.
\<close>

definition rowsEmptyFrom :: "sgrid \<Rightarrow> nat \<Rightarrow> bool" where
  "rowsEmptyFrom grid k =
     (wellFormed grid
      \<and> (\<forall>i j. i < GRID_SIZE_sm \<and> k \<le> j \<and> j < GRID_SIZE_sm \<longrightarrow> cellAt grid i j = Inr EMPTY))"

subsection \<open>Notions used to state the properties\<close>

text \<open>
  The same cell \<^verbatim>\<open>(x, y)\<close> now reads \<^verbatim>\<open>s\<close> on the attacker's attack grid and on the
  defender's ownership grid, and every other in-bounds cell of the two grids reads as
  before.
\<close>

definition markedBoth :: "grid \<Rightarrow> grid \<Rightarrow> grid \<Rightarrow> grid \<Rightarrow> u8 \<Rightarrow> u8 \<Rightarrow> u8 \<Rightarrow> bool" where
  "markedBoth att att' def def' x y s =
     (length att' = length att \<and> length def' = length def
      \<and> getCellState att' x y = Inr s \<and> getCellState def' x y = Inr s
      \<and> (\<forall>x' y'. inBounds x' y' \<and> (x', y') \<noteq> (x, y) \<longrightarrow>
            getCellState att' x' y' = getCellState att x' y'
            \<and> getCellState def' x' y' = getCellState def x' y'))"

text \<open>The pair of coordinates drawn by one pass of the hunt loop.\<close>

definition huntDraw :: "nat stream \<Rightarrow> u8 \<times> u8" where
  "huntDraw rs = (of_nat (arduino_random 0 GRID_SIZE (shd rs)),
                  of_nat (arduino_random 0 GRID_SIZE (shd (stl rs))))"

text \<open>The in-bounds cells that a grid records as untried.\<close>

definition untried :: "grid \<Rightarrow> (u8 \<times> u8) set" where
  "untried grid = {(x, y). inBounds x y \<and> getCellState grid x y = Inr CELL_EMPTY}"

text \<open>
  In target mode, no entry of the target list from \<^verbatim>\<open>targetIndex\<close> on is untried: the
  loop over the list ends with \<^verbatim>\<open>validAttack\<close> false.
\<close>

definition queueExhausted :: "game \<Rightarrow> bool" where
  "queueExhausted g =
     (\<forall>j \<in> {unat (targetIndex (targetsReady g)) ..< 4}.
        targetList (targetsReady g) ! j \<notin> untried (arduinoAttackGrid g))"

text \<open>
  The state in which \<^verbatim>\<open>arduinoAttack\<close> then calls itself: the target index has run to the
  end of the list and the mode is \<^verbatim>\<open>HUNT_MODE\<close>.
\<close>

definition huntFallback :: "game \<Rightarrow> game" where
  "huntFallback g =
     (targetsReady g)\<lparr>targetIndex := (if targetIndex (targetsReady g) < 4 then 4
                                      else targetIndex (targetsReady g)),
                      arduinoAttackMode := HUNT_MODE\<rparr>"

text \<open>
  What the sketch maintains about the arrays the opponent reads: the two grids have
  their declared size, the target list has its four entries, and the entries and the
  last hit are coordinates of the board.
\<close>

definition aiInv :: "game \<Rightarrow> bool" where
  "aiInv g =
     (length (playerGrid g) = totalGridBytes
      \<and> length (arduinoAttackGrid g) = totalGridBytes
      \<and> length (targetList g) = 4
      \<and> (\<forall>t \<in> set (targetList g). inBounds (fst t) (snd t))
      \<and> inBounds (lastHitX g) (lastHitY g))"

text \<open>
  The call reaches the hunt loop: it starts in hunt mode, or in target mode with no untried
  entry left in the target list.
\<close>

definition huntReached :: "game \<Rightarrow> bool" where
  "huntReached g = (arduinoAttackMode g = HUNT_MODE \<or> queueExhausted g)"

text \<open>
  A fair source: read two values at a time, as the hunt loop does, it draws every cell of
  the board at some pass. A uniform sampler is fair with probability one.
\<close>

definition fairSource :: "nat stream \<Rightarrow> bool" where
  "fairSource rs = (\<forall>x y. inBounds x y \<longrightarrow> (\<exists>k. huntDraw (sdrop (2 * k) rs) = (x, y)))"

text \<open>
  A source that sweeps the board for ever: its values \<open>2 * k\<close> and \<open>2 * k + 1\<close> are
  \<open>k mod 10\<close> and \<open>k div 10\<close>.
\<close>

definition sweepSource :: "nat stream" where
  "sweepSource = smap (\<lambda>n. if even n then (n div 2) mod 10 else (n div 2) div 10) (fromN 0)"

text \<open>
  A state of the fields the opponent reads, two turns after the opponent's first hit
  (see C6). The player's roster is on the board: the destroyer on (0, 0) and (1, 0), both
  hit, the carrier on row 2, the battleship on row 4, the cruiser on row 6 and the
  submarine on row 8, each from column 0. The opponent's attack grid holds the two hits.
\<close>

definition cornerHitState :: game where
  "cornerHitState =
     initialGame
       \<lparr>playerGrid := (replicate totalGridBytes 0)
                        [0 := 10, 5 := 85, 6 := 1, 10 := 85, 15 := 21, 20 := 21],
        arduinoAttackGrid := (replicate totalGridBytes 0)[0 := 10],
        gameState := ARDUINO_TURN,
        arduinoAttackMode := TARGET_MODE,
        lastHitX := 0, lastHitY := 0, targetIndex := 0,
        targetList := [(0, 0), (2, 0), (1, 1), (0, 0)],
        targetListInitialized := False\<rparr>"

section \<open>Properties of the grid storage\<close>

lemma u8_lt: "unat (x::u8) < 256"
  using unsigned_less[of x, where 'a = nat] by simp

lemma unat_cellIndex: "unat (cellIndex x y) = unat y * 10 + unat x"
proof -
  have e: "cellIndex x y = of_nat (unat y * 10 + unat x)"
    unfolding cellIndex_def by simp
  have "unat y * 10 + unat x < 2 ^ 16"
    using u8_lt[of x] u8_lt[of y] by simp
  then show ?thesis
    unfolding e unat_of_nat by simp
qed

lemma unat_cellBitIndex: "unat (cellBitIndex x y) = 2 * (unat y * 10 + unat x)"
proof -
  have e: "cellBitIndex x y = of_nat (2 * (unat y * 10 + unat x))"
    unfolding cellBitIndex_def cellIndex_def by simp
  have "2 * (unat y * 10 + unat x) < 2 ^ 16"
    using u8_lt[of x] u8_lt[of y] by simp
  then show ?thesis
    unfolding e unat_of_nat by simp
qed

lemma cellByteIndex_eq: "cellByteIndex x y = (unat y * 10 + unat x) div 4"
  by (simp add: cellByteIndex_def unat_div unat_cellBitIndex)

lemma cellBitOffset_eq: "cellBitOffset x y = 2 * ((unat y * 10 + unat x) mod 4)"
  unfolding cellBitOffset_def unat_mod unat_cellBitIndex by (simp add: mult_mod_right)

lemma cellBitOffset_cases: "cellBitOffset x y \<in> {0, 2, 4, 6}"
proof -
  have "(unat y * 10 + unat x) mod 4 < 4" by simp
  then have "(unat y * 10 + unat x) mod 4 \<in> {0, 1, 2, 3}" by auto
  then show ?thesis unfolding cellBitOffset_eq by auto
qed

lemma cellBitOffset_le: "\<not> 6 < cellBitOffset x y"
  using cellBitOffset_cases[of x y] by auto

lemma setCellState_single:
  "setCellState g x y s =
     (if length g \<le> cellByteIndex x y then Inl BufferOverrun
      else Inr (g[cellByteIndex x y :=
                  (g ! cellByteIndex x y AND NOT (push_bit (cellBitOffset x y) 3))
                    OR push_bit (cellBitOffset x y) (s AND 3)]))"
  by (simp add: setCellState_def Let_def cellBitOffset_le)

lemma getCellState_single:
  "getCellState g x y =
     (if length g \<le> cellByteIndex x y then Inl BufferOverrun
      else Inr (drop_bit (cellBitOffset x y) (g ! cellByteIndex x y) AND 3))"
  by (simp add: getCellState_def Let_def cellBitOffset_le)

lemma three_mask: "(3::u8) = mask 2"
  by (simp add: mask_eq_exp_minus_1)

lemma pack_read_same:
  "k < 7 \<Longrightarrow> drop_bit k ((w AND NOT (push_bit k 3)) OR push_bit k (s AND 3)) AND (3::u8) = s AND 3"
  unfolding three_mask
  by (rule bit_eqI) (auto simp add: bit_simps)

lemma pack_read_other:
  "k \<in> {0, 2, 4, 6} \<Longrightarrow> j \<in> {0, 2, 4, 6} \<Longrightarrow> j \<noteq> k \<Longrightarrow>
   drop_bit j ((w AND NOT (push_bit k 3)) OR push_bit k (s AND 3)) AND (3::u8) = drop_bit j w AND 3"
  unfolding three_mask
  by (rule bit_eqI) (auto simp add: bit_simps)

lemma pack_bit_other:
  "n < 8 \<Longrightarrow> n \<noteq> k \<Longrightarrow> n \<noteq> k + 1 \<Longrightarrow>
   bit ((w AND NOT (push_bit k 3)) OR push_bit k (s AND (3::u8))) n = bit w n"
  unfolding three_mask
  by (auto simp add: bit_simps)

lemma pack_bit_same:
  "k < 7 \<Longrightarrow> i < 2 \<Longrightarrow>
   bit ((w AND NOT (push_bit k 3)) OR push_bit k (s AND (3::u8))) (k + i) = bit s i"
  unfolding three_mask
  by (auto simp add: bit_simps)

lemma cell_state_and3: "s \<in> {CELL_EMPTY, CELL_SHIP, CELL_HIT, CELL_MISS} \<Longrightarrow> s AND 3 = s"
  by (auto simp add: CELL_EMPTY_def CELL_SHIP_def CELL_HIT_def CELL_MISS_def)

lemma totalGridBytes_eq: "totalGridBytes = 25"
  by (simp add: totalGridBytes_def totalGridBits_def GRID_SIZE_def)

lemma inBounds_byteIndex: "inBounds x y \<Longrightarrow> cellByteIndex x y < totalGridBytes"
  unfolding inBounds_def cellByteIndex_eq totalGridBytes_eq GRID_SIZE_def by arith

lemma cell_pos_inj:
  assumes "inBounds x y" "inBounds x' y'"
    and "cellByteIndex x y = cellByteIndex x' y'" "cellBitOffset x y = cellBitOffset x' y'"
  shows "x = x' \<and> y = y'"
proof -
  let ?i = "unat y * 10 + unat x" and ?j = "unat y' * 10 + unat x'"
  have "?i div 4 = ?j div 4" "?i mod 4 = ?j mod 4"
    using assms(3,4) by (simp_all add: cellByteIndex_eq cellBitOffset_eq)
  then have "?i = ?j" by (metis div_mult_mod_eq)
  moreover have "unat x < 10" "unat x' < 10"
    using assms(1,2) by (simp_all add: inBounds_def GRID_SIZE_def)
  ultimately have "unat x = unat x' \<and> unat y = unat y'" by presburger
  then show ?thesis by (simp add: word_unat_eq_iff)
qed

lemma getCellState_inBounds:
  "length g = totalGridBytes \<Longrightarrow> inBounds x y \<Longrightarrow>
   getCellState g x y = Inr (drop_bit (cellBitOffset x y) (g ! cellByteIndex x y) AND 3)"
  using inBounds_byteIndex[of x y] by (simp add: getCellState_single)

lemma setCellState_inBounds:
  "length g = totalGridBytes \<Longrightarrow> inBounds x y \<Longrightarrow>
   setCellState g x y s =
     Inr (g[cellByteIndex x y :=
            (g ! cellByteIndex x y AND NOT (push_bit (cellBitOffset x y) 3))
              OR push_bit (cellBitOffset x y) (s AND 3)])"
  using inBounds_byteIndex[of x y] by (simp add: setCellState_single)

lemma set_then_get_same:
  assumes "length g = totalGridBytes" "inBounds x y" "setCellState g x y s = Inr g'"
  shows "getCellState g' x y = Inr (s AND 3)"
proof -
  have g': "g' = g[cellByteIndex x y :=
            (g ! cellByteIndex x y AND NOT (push_bit (cellBitOffset x y) 3))
              OR push_bit (cellBitOffset x y) (s AND 3)]"
    using assms by (simp add: setCellState_inBounds)
  have len: "length g' = totalGridBytes" using assms(1) g' by simp
  have k: "cellBitOffset x y < 7" using cellBitOffset_cases[of x y] by auto
  have nth: "g' ! cellByteIndex x y =
      (g ! cellByteIndex x y AND NOT (push_bit (cellBitOffset x y) 3))
        OR push_bit (cellBitOffset x y) (s AND 3)"
    using inBounds_byteIndex[OF assms(2)] assms(1) by (simp add: g')
  show ?thesis
    unfolding getCellState_inBounds[OF len assms(2)] nth
    by (simp only: pack_read_same[OF k])
qed

lemma set_then_get_other:
  assumes "length g = totalGridBytes" "inBounds x y" "setCellState g x y s = Inr g'"
    and "inBounds x' y'" "(x', y') \<noteq> (x, y)"
  shows "getCellState g' x' y' = getCellState g x' y'"
proof -
  have g': "g' = g[cellByteIndex x y :=
            (g ! cellByteIndex x y AND NOT (push_bit (cellBitOffset x y) 3))
              OR push_bit (cellBitOffset x y) (s AND 3)]"
    using assms by (simp add: setCellState_inBounds)
  have len: "length g' = totalGridBytes" using assms(1) g' by simp
  show ?thesis
  proof (cases "cellByteIndex x' y' = cellByteIndex x y")
    case False
    then show ?thesis
      unfolding getCellState_inBounds[OF len assms(4)] getCellState_inBounds[OF assms(1) assms(4)]
      by (simp add: g')
  next
    case True
    then have off: "cellBitOffset x' y' \<noteq> cellBitOffset x y"
      using cell_pos_inj[OF assms(4) assms(2)] assms(5) by auto
    have nth: "g' ! cellByteIndex x' y' =
        (g ! cellByteIndex x' y' AND NOT (push_bit (cellBitOffset x y) 3))
          OR push_bit (cellBitOffset x y) (s AND 3)"
      using inBounds_byteIndex[OF assms(2)] assms(1) True by (simp add: g')
    show ?thesis
      unfolding getCellState_inBounds[OF len assms(4)] getCellState_inBounds[OF assms(1) assms(4)] nth
      by (simp only: pack_read_other[OF cellBitOffset_cases[of x y] cellBitOffset_cases[of x' y'] off])
  qed
qed

lemma bitIndex_split: "unat (cellBitIndex x y) = 8 * cellByteIndex x y + cellBitOffset x y"
  unfolding cellByteIndex_def cellBitOffset_def unat_div unat_mod by simp

lemma set_bits_other:
  assumes "length g = totalGridBytes" "inBounds x y" "setCellState g x y s = Inr g'"
    and "j < length g" "k < 8"
    and "8 * j + k \<noteq> unat (cellBitIndex x y)" "8 * j + k \<noteq> unat (cellBitIndex x y) + 1"
  shows "bit (g' ! j) k = bit (g ! j) k"
proof -
  have g': "g' = g[cellByteIndex x y :=
            (g ! cellByteIndex x y AND NOT (push_bit (cellBitOffset x y) 3))
              OR push_bit (cellBitOffset x y) (s AND 3)]"
    using assms by (simp add: setCellState_inBounds)
  show ?thesis
  proof (cases "j = cellByteIndex x y")
    case False
    then show ?thesis by (simp add: g')
  next
    case True
    then have "k \<noteq> cellBitOffset x y" "k \<noteq> cellBitOffset x y + 1"
      using assms(6,7) by (simp_all add: bitIndex_split)
    then have "bit ((g ! j AND NOT (push_bit (cellBitOffset x y) 3))
              OR push_bit (cellBitOffset x y) (s AND 3)) k = bit (g ! j) k"
      using pack_bit_other[OF assms(5)] by blast
    then show ?thesis using True assms(4) by (simp add: g')
  qed
qed

lemma set_bits_same:
  assumes "length g = totalGridBytes" "inBounds x y" "setCellState g x y s = Inr g'" "i < 2"
  shows "bit (g' ! ((unat (cellBitIndex x y) + i) div 8)) ((unat (cellBitIndex x y) + i) mod 8)
         = bit s i"
proof -
  have g': "g' = g[cellByteIndex x y :=
            (g ! cellByteIndex x y AND NOT (push_bit (cellBitOffset x y) 3))
              OR push_bit (cellBitOffset x y) (s AND 3)]"
    using assms by (simp add: setCellState_inBounds)
  have k: "cellBitOffset x y < 7" using cellBitOffset_cases[of x y] by auto
  have small: "cellBitOffset x y + i < 8" using cellBitOffset_cases[of x y] assms(4) by auto
  have d: "(unat (cellBitIndex x y) + i) div 8 = cellByteIndex x y"
    and m: "(unat (cellBitIndex x y) + i) mod 8 = cellBitOffset x y + i"
    using small by (simp_all add: bitIndex_split add.assoc)
  have nth: "g' ! cellByteIndex x y =
      (g ! cellByteIndex x y AND NOT (push_bit (cellBitOffset x y) 3))
        OR push_bit (cellBitOffset x y) (s AND 3)"
    using inBounds_byteIndex[OF assms(2)] assms(1) by (simp add: g')
  show ?thesis
    unfolding d m nth by (rule pack_bit_same[OF k assms(4)])
qed

text \<open>
  C1. For in-bounds coordinates and each of the four states, writing a cell succeeds,
  reading it back gives the written state, every other in-bounds cell reads as before,
  and in the buffer exactly the two addressed bits (at \<^verbatim>\<open>bitIndex\<close> and \<^verbatim>\<open>bitIndex + 1\<close>)
  are overwritten, with the two bits of the state. No in-bounds cell straddles a byte
  boundary (see C10), so none is excepted.
\<close>

theorem C1_set_get_roundtrip:
  assumes "length g = totalGridBytes" and "inBounds x y"
    and "s \<in> {CELL_EMPTY, CELL_SHIP, CELL_HIT, CELL_MISS}"
  shows "\<exists>g'. setCellState g x y s = Inr g'
          \<and> length g' = length g
          \<and> getCellState g' x y = Inr s
          \<and> (\<forall>x' y'. inBounds x' y' \<and> (x', y') \<noteq> (x, y)
                \<longrightarrow> getCellState g' x' y' = getCellState g x' y')
          \<and> (\<forall>j k. j < length g \<and> k < 8
                  \<and> 8 * j + k \<noteq> unat (cellBitIndex x y)
                  \<and> 8 * j + k \<noteq> unat (cellBitIndex x y) + 1
                \<longrightarrow> bit (g' ! j) k = bit (g ! j) k)
          \<and> (\<forall>i. i < 2
                \<longrightarrow> bit (g' ! ((unat (cellBitIndex x y) + i) div 8))
                        ((unat (cellBitIndex x y) + i) mod 8) = bit s i)"
proof -
  obtain g' where set: "setCellState g x y s = Inr g'"
    using setCellState_inBounds[OF assms(1,2)] by blast
  have "length g' = length g"
    using set setCellState_inBounds[OF assms(1,2), of s] by auto
  moreover have "getCellState g' x y = Inr s"
    using set_then_get_same[OF assms(1,2) set] cell_state_and3[OF assms(3)] by simp
  moreover have "\<forall>x' y'. inBounds x' y' \<and> (x', y') \<noteq> (x, y)
                \<longrightarrow> getCellState g' x' y' = getCellState g x' y'"
    using set_then_get_other[OF assms(1,2) set] by blast
  moreover have "\<forall>j k. j < length g \<and> k < 8
                  \<and> 8 * j + k \<noteq> unat (cellBitIndex x y)
                  \<and> 8 * j + k \<noteq> unat (cellBitIndex x y) + 1
                \<longrightarrow> bit (g' ! j) k = bit (g ! j) k"
    using set_bits_other[OF assms(1,2) set] by blast
  moreover have "\<forall>i. i < 2
                \<longrightarrow> bit (g' ! ((unat (cellBitIndex x y) + i) div 8))
                        ((unat (cellBitIndex x y) + i) mod 8) = bit s i"
    using set_bits_same[OF assms(1,2) set] by blast
  ultimately show ?thesis using set by blast
qed

theorem C1_set_get_roundtrip_witness:
  "length (replicate 25 (255::u8)) = totalGridBytes \<and> inBounds 9 9
   \<and> CELL_HIT \<in> {CELL_EMPTY, CELL_SHIP, CELL_HIT, CELL_MISS}
   \<and> setCellState (replicate 25 255) 9 9 CELL_HIT = Inr ((replicate 25 255)[24 := 191])
   \<and> getCellState ((replicate 25 255)[24 := 191]) 9 9 = Inr CELL_HIT
   \<and> getCellState ((replicate 25 255)[24 := 191]) 8 9 = getCellState (replicate 25 255) 8 9"
proof -
  have h1: "length (replicate 25 (255::u8)) = totalGridBytes"
    by (simp add: totalGridBytes_eq)
  have h2: "inBounds 9 9" by (simp add: inBounds_def GRID_SIZE_def)
  have h3: "CELL_HIT \<in> {CELL_EMPTY, CELL_SHIP, CELL_HIT, CELL_MISS}" by simp
  have h4: "inBounds 8 9 \<and> ((8::u8), (9::u8)) \<noteq> (9, 9)" by (simp add: inBounds_def GRID_SIZE_def)
  have v: "setCellState (replicate 25 255) 9 9 CELL_HIT = Inr ((replicate 25 255)[24 := 191])"
    by (simp add: setCellState_single cellByteIndex_eq cellBitOffset_eq CELL_HIT_def)
  from C1_set_get_roundtrip[OF h1 h2 h3] obtain g' where
    a: "setCellState (replicate 25 255) 9 9 CELL_HIT = Inr g'" and
    b: "getCellState g' 9 9 = Inr CELL_HIT" and
    c: "\<forall>x' y'. inBounds x' y' \<and> (x', y') \<noteq> (9, 9)
                \<longrightarrow> getCellState g' x' y' = getCellState (replicate 25 255) x' y'"
    by blast
  have e: "g' = (replicate 25 255)[24 := 191]" using a v by simp
  have c': "getCellState g' 8 9 = getCellState (replicate 25 255) 8 9"
    using c h4 by blast
  show ?thesis
    using h1 h2 h3 v b c' unfolding e by blast
qed


text \<open>
  C10. The bit offset of a cell is one of 0, 2, 4, 6 (for every pair of coordinates, in
  bounds or not), so the two bits of a cell lie in one byte and the branch guarded by
  \<^verbatim>\<open>bitOffset > 6\<close> is dead in both functions: each of them is equal to its first,
  single-byte part.
\<close>

theorem C10_bit_offset_even:
  "cellBitOffset x y \<in> {0, 2, 4, 6}
   \<and> \<not> 6 < cellBitOffset x y
   \<and> cellBitOffset x y + 2 \<le> 8
   \<and> setCellState g x y s =
       (if length g \<le> cellByteIndex x y then Inl BufferOverrun
        else Inr (g[cellByteIndex x y :=
                    (g ! cellByteIndex x y AND NOT (push_bit (cellBitOffset x y) 3))
                      OR push_bit (cellBitOffset x y) (s AND 3)]))
   \<and> getCellState g x y =
       (if length g \<le> cellByteIndex x y then Inl BufferOverrun
        else Inr (drop_bit (cellBitOffset x y) (g ! cellByteIndex x y) AND 3))"
proof -
  have "cellBitOffset x y + 2 \<le> 8"
    using cellBitOffset_cases[of x y] by auto
  then show ?thesis
    using cellBitOffset_cases[of x y] cellBitOffset_le[of x y]
      setCellState_single[of g x y s] getCellState_single[of g x y]
    by blast
qed


section \<open>Properties of the placement validator\<close>

lemma thenF_Inr_iff: "thenF m f = Inr b \<longleftrightarrow> (\<exists>a. m = Inr a \<and> f a = Inr b)"
  by (cases m) (simp_all add: thenF_def)

lemma thenF_Inr [simp]: "thenF (Inr a) f = f a"
  by (simp add: thenF_def)

lemma thenF_Inl [simp]: "thenF (Inl e) f = Inl e"
  by (simp add: thenF_def)

lemma cellsEmpty_True:
  "cellsEmpty g cells = Inr True \<Longrightarrow> (xi, yi) \<in> set cells \<Longrightarrow> getCellState g xi yi = Inr CELL_EMPTY"
proof (induction cells)
  case Nil
  then show ?case by simp
next
  case (Cons c cells)
  obtain a b where c: "c = (a, b)" by (cases c)
  from Cons.prems(1) obtain st where st: "getCellState g a b = Inr st"
    and rest: "(if st \<noteq> CELL_EMPTY then Inr False else cellsEmpty g cells) = Inr True"
    unfolding c by (auto simp add: thenF_Inr_iff)
  from rest have e: "st = CELL_EMPTY" and r: "cellsEmpty g cells = Inr True"
    by (auto split: if_splits)
  show ?case
  proof (cases "(xi, yi) = (a, b)")
    case True
    then show ?thesis using st e by simp
  next
    case False
    then have "(xi, yi) \<in> set cells" using Cons.prems(2) c by auto
    then show ?thesis using Cons.IH[OF r] by simp
  qed
qed

lemma unat_add_small:
  "unat (x::u8) + i < 256 \<Longrightarrow> unat (x + of_nat i) = unat x + i"
  by (simp add: unat_word_ariths unat_of_nat)

lemma footprint_set:
  "set (footprint x y sz h) =
     (\<lambda>i. if h then (x + of_nat i, y) else (x, y + of_nat i)) ` {0..<unat sz}"
  by (simp add: footprint_def)

text \<open>
  C4 (amended). When the anchor's coordinate across the ship's axis is in bounds (\<^verbatim>\<open>y\<close>
  for a horizontal ship, \<^verbatim>\<open>x\<close> for a vertical one; every caller passes an in-bounds
  anchor), an accepted placement has its whole footprint of \<^verbatim>\<open>size\<close> contiguous cells in
  bounds on both axes, and every footprint cell is \<^verbatim>\<open>CELL_EMPTY\<close> in the grid that was
  tested.
\<close>

theorem C4_canPlaceShip_footprint:
  assumes "canPlaceShip g x y sz h = Inr True"
    and "if h then unat y < GRID_SIZE else unat x < GRID_SIZE"
  shows "\<forall>i. i < unat sz \<longrightarrow>
           (let xi = (if h then x + of_nat i else x); yi = (if h then y else y + of_nat i)
            in (xi, yi) = footprint x y sz h ! i
               \<and> unat xi = (if h then unat x + i else unat x)
               \<and> unat yi = (if h then unat y else unat y + i)
               \<and> inBounds xi yi
               \<and> getCellState g xi yi = Inr CELL_EMPTY)"
proof (intro allI impI)
  fix i assume i: "i < unat sz"
  show "let xi = (if h then x + of_nat i else x); yi = (if h then y else y + of_nat i)
        in (xi, yi) = footprint x y sz h ! i
           \<and> unat xi = (if h then unat x + i else unat x)
           \<and> unat yi = (if h then unat y else unat y + i)
           \<and> inBounds xi yi
           \<and> getCellState g xi yi = Inr CELL_EMPTY"
  proof (cases h)
    case True
    from assms(1) True have ext: "unat x + unat sz \<le> GRID_SIZE"
      and ce: "cellsEmpty g (footprint x y sz True) = Inr True"
      by (auto simp add: canPlaceShip_def split: if_splits)
    have u: "unat (x + of_nat i) = unat x + i"
      using ext i by (intro unat_add_small) (simp add: GRID_SIZE_def)
    have m: "(x + of_nat i, y) \<in> set (footprint x y sz True)"
      using i by (auto simp add: footprint_set)
    have n: "footprint x y sz True ! i = (x + of_nat i, y)"
      using i by (simp add: footprint_def)
    have "inBounds (x + of_nat i) y"
      using u ext i assms(2) True by (simp add: inBounds_def)
    then show ?thesis
      using True u n cellsEmpty_True[OF ce m] by (simp add: Let_def)
  next
    case False
    from assms(1) False have ext: "unat y + unat sz \<le> GRID_SIZE"
      and ce: "cellsEmpty g (footprint x y sz False) = Inr True"
      by (auto simp add: canPlaceShip_def split: if_splits)
    have u: "unat (y + of_nat i) = unat y + i"
      using ext i by (intro unat_add_small) (simp add: GRID_SIZE_def)
    have m: "(x, y + of_nat i) \<in> set (footprint x y sz False)"
      using i by (auto simp add: footprint_set)
    have n: "footprint x y sz False ! i = (x, y + of_nat i)"
      using i by (simp add: footprint_def)
    have "inBounds x (y + of_nat i)"
      using u ext i assms(2) False by (simp add: inBounds_def)
    then show ?thesis
      using False u n cellsEmpty_True[OF ce m] by (simp add: Let_def)
  qed
qed

lemma getCellState_zero: "cellByteIndex x y < n \<Longrightarrow> getCellState (replicate n 0) x y = Inr 0"
  by (simp add: getCellState_single)

text \<open>
  The validator tests the extent along the ship's axis only. A vertical ship of size 1
  anchored at \<^verbatim>\<open>x = 15\<close>, \<^verbatim>\<open>y = 0\<close> is accepted on the empty grid: cell index 15 lies
  inside the buffer (it is the storage of cell (5, 1)), yet 15 is no column of the board.
\<close>

theorem C4_counterexample:
  "canPlaceShip (replicate 25 0) 15 0 1 False = Inr True
   \<and> footprint 15 0 1 False = [(15, 0)]
   \<and> \<not> inBounds 15 0"
  by (simp add: canPlaceShip_def footprint_def GRID_SIZE_def inBounds_def
      getCellState_single cellByteIndex_eq CELL_EMPTY_def)

theorem C4_canPlaceShip_footprint_witness:
  "canPlaceShip (replicate 25 0) 7 4 3 True = Inr True
   \<and> unat (4::u8) < GRID_SIZE
   \<and> inBounds 9 4 \<and> getCellState (replicate 25 0) 9 4 = Inr CELL_EMPTY"
proof -
  have a: "canPlaceShip (replicate 25 0) 7 4 3 True = Inr True"
    by (simp add: canPlaceShip_def footprint_def GRID_SIZE_def upt_rec
      getCellState_single cellByteIndex_eq CELL_EMPTY_def)
  have b: "if True then unat (4::u8) < GRID_SIZE else unat (7::u8) < GRID_SIZE"
    by (simp add: GRID_SIZE_def)
  have c: "(2::nat) < unat (3::u8)" by simp
  from C4_canPlaceShip_footprint[OF a b, rule_format, OF c]
  have "inBounds (7 + of_nat 2) 4 \<and> getCellState (replicate 25 0) (7 + of_nat 2) 4 = Inr CELL_EMPTY"
    by (simp add: Let_def)
  then show ?thesis using a b by simp
qed



section \<open>Properties of the attack resolution\<close>

lemma allCells_inBounds: "(x, y) \<in> set allCells \<Longrightarrow> inBounds x y"
  by (auto simp add: allCells_def inBounds_def GRID_SIZE_def unat_of_nat)

lemma countShipCells_total:
  "length g = totalGridBytes \<Longrightarrow> \<forall>(x, y) \<in> set cells. inBounds x y \<Longrightarrow>
   \<exists>n. countShipCells g cells acc = Inr n"
proof (induction cells arbitrary: acc)
  case Nil
  then show ?case by simp
next
  case (Cons c cells)
  obtain a b where c: "c = (a, b)" by (cases c)
  have "inBounds a b" using Cons.prems(2) c by simp
  then have "getCellState g a b = Inr (drop_bit (cellBitOffset a b) (g ! cellByteIndex a b) AND 3)"
    using getCellState_inBounds[OF Cons.prems(1)] by simp
  moreover have "\<forall>(x, y) \<in> set cells. inBounds x y" using Cons.prems(2) by simp
  ultimately show ?case
    using Cons.IH[OF Cons.prems(1)] unfolding c by simp
qed

lemma countRemainingShips_total:
  "length g = totalGridBytes \<Longrightarrow> \<exists>n. countRemainingShips g = Inr n"
  unfolding countRemainingShips_def
  using countShipCells_total[of g allCells 0] allCells_inBounds by blast

lemma setCellState_length:
  "setCellState g x y s = Inr g' \<Longrightarrow> length g' = length g"
  by (auto simp add: setCellState_single split: if_splits)

lemma setCellState_total:
  "length g = totalGridBytes \<Longrightarrow> inBounds x y \<Longrightarrow> \<exists>g'. setCellState g x y s = Inr g'"
  by (simp add: setCellState_inBounds)

lemma markedBoth_intro:
  assumes "length att = totalGridBytes" "length def = totalGridBytes" "inBounds x y"
    and "s \<in> {CELL_EMPTY, CELL_SHIP, CELL_HIT, CELL_MISS}"
    and "setCellState att x y s = Inr att'" "setCellState def x y s = Inr def'"
  shows "markedBoth att att' def def' x y s"
  unfolding markedBoth_def
  using setCellState_length[OF assms(5)] setCellState_length[OF assms(6)]
    set_then_get_same[OF assms(1,3,5)] set_then_get_same[OF assms(2,3,6)]
    set_then_get_other[OF assms(1,3,5)] set_then_get_other[OF assms(2,3,6)]
    cell_state_and3[OF assms(4)]
  by simp

lemma playerFire_untried:
  assumes "length (playerAttackGrid g) = totalGridBytes" "length (arduinoGrid g) = totalGridBytes"
    and "inBounds (cursorX g) (cursorY g)"
    and "getCellState (playerAttackGrid g) (cursorX g) (cursorY g) = Inr CELL_EMPTY"
  defines "m \<equiv> (if getCellState (arduinoGrid g) (cursorX g) (cursorY g) = Inr CELL_SHIP
                   then CELL_HIT else CELL_MISS)"
  shows "\<exists>pa ag n.
           setCellState (playerAttackGrid g) (cursorX g) (cursorY g) m = Inr pa
           \<and> setCellState (arduinoGrid g) (cursorX g) (cursorY g) m = Inr ag
           \<and> countRemainingShips ag = Inr n
           \<and> playerFire g =
               Inr (g\<lparr>playerAttackGrid := pa, arduinoGrid := ag,
                      gameState := (if n = 0 then GAME_OVER else ARDUINO_TURN)\<rparr>, n = 0)"
proof -
  obtain c where c: "getCellState (arduinoGrid g) (cursorX g) (cursorY g) = Inr c"
    using getCellState_inBounds[OF assms(2,3)] by blast
  obtain pa where pa: "setCellState (playerAttackGrid g) (cursorX g) (cursorY g) m = Inr pa"
    using setCellState_total[OF assms(1,3)] by blast
  obtain ag where ag: "setCellState (arduinoGrid g) (cursorX g) (cursorY g) m = Inr ag"
    using setCellState_total[OF assms(2,3)] by blast
  have "length ag = totalGridBytes" using setCellState_length[OF ag] assms(2) by simp
  then obtain n where n: "countRemainingShips ag = Inr n"
    using countRemainingShips_total by blast
  have "playerFire g =
               Inr (g\<lparr>playerAttackGrid := pa, arduinoGrid := ag,
                      gameState := (if n = 0 then GAME_OVER else ARDUINO_TURN)\<rparr>, n = 0)"
  proof (cases "c = CELL_SHIP")
    case True
    then have "m = CELL_HIT" using c by (simp add: m_def)
    then show ?thesis
      using assms(4) c True pa ag n by (simp add: playerFire_def)
  next
    case False
    then have "m = CELL_MISS" using c by (simp add: m_def)
    then show ?thesis
      using assms(4) c False pa ag n by (simp add: playerFire_def)
  qed
  then show ?thesis using pa ag n by blast
qed

lemma playerFire_tried:
  "getCellState (playerAttackGrid g) (cursorX g) (cursorY g) = Inr c \<Longrightarrow> c \<noteq> CELL_EMPTY \<Longrightarrow>
   playerFire g = Inr (g, False)"
  by (simp add: playerFire_def)

lemma arduinoResolve_ok:
  assumes "length (playerGrid g) = totalGridBytes" "length (arduinoAttackGrid g) = totalGridBytes"
    and "inBounds x y"
  defines "m \<equiv> (if getCellState (playerGrid g) x y = Inr CELL_SHIP then CELL_HIT else CELL_MISS)"
  shows "\<exists>aa pg.
           setCellState (arduinoAttackGrid g) x y m = Inr aa
           \<and> setCellState (playerGrid g) x y m = Inr pg
           \<and> arduinoResolve g x y =
               Inr (if m = CELL_HIT
                    then g\<lparr>arduinoAttackGrid := aa, playerGrid := pg,
                           lastHitX := x, lastHitY := y,
                           arduinoAttackMode := TARGET_MODE,
                           targetIndex := 0,
                           targetListInitialized := False\<rparr>
                    else g\<lparr>arduinoAttackGrid := aa, playerGrid := pg\<rparr>)"
proof -
  obtain c where c: "getCellState (playerGrid g) x y = Inr c"
    using getCellState_inBounds[OF assms(1,3)] by blast
  obtain aa where aa: "setCellState (arduinoAttackGrid g) x y m = Inr aa"
    using setCellState_total[OF assms(2,3)] by blast
  obtain pg where pg: "setCellState (playerGrid g) x y m = Inr pg"
    using setCellState_total[OF assms(1,3)] by blast
  have "arduinoResolve g x y =
               Inr (if m = CELL_HIT
                    then g\<lparr>arduinoAttackGrid := aa, playerGrid := pg,
                           lastHitX := x, lastHitY := y,
                           arduinoAttackMode := TARGET_MODE,
                           targetIndex := 0,
                           targetListInitialized := False\<rparr>
                    else g\<lparr>arduinoAttackGrid := aa, playerGrid := pg\<rparr>)"
  proof (cases "c = CELL_SHIP")
    case True
    then have "m = CELL_HIT" using c by (simp add: m_def)
    then show ?thesis
      using c True aa pg by (simp add: arduinoResolve_def)
  next
    case False
    then have "m = CELL_MISS" using c by (simp add: m_def)
    then show ?thesis
      using c False aa pg by (simp add: arduinoResolve_def CELL_MISS_def CELL_HIT_def)
  qed
  then show ?thesis using aa pg by blast
qed

lemma arduinoWinCheck_ok:
  assumes "length (playerGrid g) = totalGridBytes"
  shows "\<exists>n. countRemainingShips (playerGrid g) = Inr n
           \<and> arduinoWinCheck g = Inr (g\<lparr>gameState := (if n = 0 then GAME_OVER else PLAYER_TURN)\<rparr>)"
proof -
  obtain n where n: "countRemainingShips (playerGrid g) = Inr n"
    using countRemainingShips_total[OF assms] by blast
  then show ?thesis by (auto simp add: arduinoWinCheck_def)
qed

text \<open>What a resolved attack of the opponent at an in-bounds cell leaves behind.\<close>

lemma arduinoResolveAndCheck_ok:
  assumes "length (playerGrid g) = totalGridBytes" "length (arduinoAttackGrid g) = totalGridBytes"
    and "inBounds x y"
  defines "m \<equiv> (if getCellState (playerGrid g) x y = Inr CELL_SHIP then CELL_HIT else CELL_MISS)"
  shows "\<exists>g' n. arduinoResolveAndCheck g x y = Inr g'
           \<and> markedBoth (arduinoAttackGrid g) (arduinoAttackGrid g') (playerGrid g) (playerGrid g') x y m
           \<and> countRemainingShips (playerGrid g') = Inr n
           \<and> gameState g' = (if n = 0 then GAME_OVER else PLAYER_TURN)
           \<and> arduinoGrid g' = arduinoGrid g \<and> playerAttackGrid g' = playerAttackGrid g
           \<and> targetList g' = targetList g
           \<and> (if m = CELL_HIT
               then lastHitX g' = x \<and> lastHitY g' = y \<and> arduinoAttackMode g' = TARGET_MODE
                    \<and> targetIndex g' = 0 \<and> \<not> targetListInitialized g'
               else lastHitX g' = lastHitX g \<and> lastHitY g' = lastHitY g
                    \<and> arduinoAttackMode g' = arduinoAttackMode g
                    \<and> targetIndex g' = targetIndex g
                    \<and> targetListInitialized g' = targetListInitialized g)"
proof -
  obtain aa pg where aa: "setCellState (arduinoAttackGrid g) x y m = Inr aa"
    and pg: "setCellState (playerGrid g) x y m = Inr pg"
    and r: "arduinoResolve g x y =
               Inr (if m = CELL_HIT
                    then g\<lparr>arduinoAttackGrid := aa, playerGrid := pg,
                           lastHitX := x, lastHitY := y,
                           arduinoAttackMode := TARGET_MODE,
                           targetIndex := 0,
                           targetListInitialized := False\<rparr>
                    else g\<lparr>arduinoAttackGrid := aa, playerGrid := pg\<rparr>)"
    using arduinoResolve_ok[OF assms(1,2,3)] unfolding m_def by blast
  define g1 where "g1 = (if m = CELL_HIT
                    then g\<lparr>arduinoAttackGrid := aa, playerGrid := pg,
                           lastHitX := x, lastHitY := y,
                           arduinoAttackMode := TARGET_MODE,
                           targetIndex := 0,
                           targetListInitialized := False\<rparr>
                    else g\<lparr>arduinoAttackGrid := aa, playerGrid := pg\<rparr>)"
  have pg1: "playerGrid g1 = pg" and aa1: "arduinoAttackGrid g1 = aa"
    by (simp_all add: g1_def)
  have "length (playerGrid g1) = totalGridBytes"
    using setCellState_length[OF pg] assms(1) pg1 by simp
  then obtain n where n: "countRemainingShips (playerGrid g1) = Inr n"
    and w: "arduinoWinCheck g1 = Inr (g1\<lparr>gameState := (if n = 0 then GAME_OVER else PLAYER_TURN)\<rparr>)"
    using arduinoWinCheck_ok by blast
  have ms: "m \<in> {CELL_EMPTY, CELL_SHIP, CELL_HIT, CELL_MISS}" by (simp add: m_def)
  have mb: "markedBoth (arduinoAttackGrid g) aa (playerGrid g) pg x y m"
    by (rule markedBoth_intro[OF assms(2,1,3) ms aa pg])
  have res: "arduinoResolveAndCheck g x y = Inr (g1\<lparr>gameState := (if n = 0 then GAME_OVER else PLAYER_TURN)\<rparr>)"
    using r w by (simp add: arduinoResolveAndCheck_def g1_def)
  show ?thesis
    unfolding res using mb n pg1 aa1
    by (simp add: g1_def)
qed

section \<open>Properties of the opponent\<close>

subsection \<open>Hunt mode: the sampling loop\<close>

lemma huntDraw_inBounds: "inBounds (fst (huntDraw rs)) (snd (huntDraw rs))"
  by (simp add: huntDraw_def inBounds_def arduino_random_def GRID_SIZE_def unat_of_nat)

lemma huntSample_step:
  "huntSample grid rs =
     (case getCellState grid (fst (huntDraw rs)) (snd (huntDraw rs)) of
        Inl e \<Rightarrow> Some (Inl e)
      | Inr c \<Rightarrow> if c = CELL_EMPTY
                then Some (Inr (fst (huntDraw rs), snd (huntDraw rs), stl (stl rs)))
                else huntSample grid (stl (stl rs)))"
  by (subst huntSample.simps) (simp add: huntDraw_def Let_def split: sum.split)

lemma untried_iff: "(x, y) \<in> untried grid \<longleftrightarrow> inBounds x y \<and> getCellState grid x y = Inr CELL_EMPTY"
  by (simp add: untried_def)

lemma huntSample_finds:
  assumes "length grid = totalGridBytes"
    and "huntDraw (sdrop (2 * k) rs) \<in> untried grid"
  shows "\<exists>j\<le>k. huntDraw (sdrop (2 * j) rs) \<in> untried grid
           \<and> huntSample grid rs =
               Some (Inr (fst (huntDraw (sdrop (2 * j) rs)), snd (huntDraw (sdrop (2 * j) rs)),
                          sdrop (2 * j + 2) rs))"
  using assms(2)
proof (induction k arbitrary: rs)
  case 0
  then have "getCellState grid (fst (huntDraw rs)) (snd (huntDraw rs)) = Inr CELL_EMPTY"
    by (cases "huntDraw rs") (simp add: untried_iff)
  then have "huntSample grid rs = Some (Inr (fst (huntDraw rs), snd (huntDraw rs), stl (stl rs)))"
    by (subst huntSample_step) simp
  then show ?case using 0 by simp
next
  case (Suc k)
  obtain c where c: "getCellState grid (fst (huntDraw rs)) (snd (huntDraw rs)) = Inr c"
    using getCellState_inBounds[OF assms(1) huntDraw_inBounds] by blast
  show ?case
  proof (cases "c = CELL_EMPTY")
    case True
    then have "huntSample grid rs = Some (Inr (fst (huntDraw rs), snd (huntDraw rs), stl (stl rs)))"
      using c by (subst huntSample_step) simp
    moreover have "huntDraw rs \<in> untried grid"
      using c True huntDraw_inBounds[of rs] by (cases "huntDraw rs") (simp add: untried_iff)
    ultimately show ?thesis by (intro exI[of _ 0]) simp
  next
    case False
    then have step: "huntSample grid rs = huntSample grid (stl (stl rs))"
      using c by (subst huntSample_step) simp
    have "huntDraw (sdrop (2 * k) (stl (stl rs))) \<in> untried grid"
      using Suc.prems by simp
    from Suc.IH[OF this] obtain j where j: "j \<le> k"
      "huntDraw (sdrop (2 * j) (stl (stl rs))) \<in> untried grid"
      "huntSample grid (stl (stl rs)) =
               Some (Inr (fst (huntDraw (sdrop (2 * j) (stl (stl rs)))),
                          snd (huntDraw (sdrop (2 * j) (stl (stl rs)))),
                          sdrop (2 * j + 2) (stl (stl rs))))"
      by blast
    show ?thesis
      using j step by (intro exI[of _ "Suc j"]) simp
  qed
qed

lemma huntSample_sconst_aux:
  assumes "huntSample grid rs = Some r"
  shows "\<not> (rs = sconst v
            \<and> (\<exists>c. getCellState grid (fst (huntDraw (sconst v))) (snd (huntDraw (sconst v))) = Inr c
                    \<and> c \<noteq> CELL_EMPTY))"
proof (rule huntSample.raw_induct[where P = "\<lambda>grid rs r. \<not> (rs = sconst v
            \<and> (\<exists>c. getCellState grid (fst (huntDraw (sconst v))) (snd (huntDraw (sconst v))) = Inr c
                    \<and> c \<noteq> CELL_EMPTY))", OF _ assms])
  fix f :: "grid \<Rightarrow> nat stream \<Rightarrow> (fault + u8 \<times> u8 \<times> nat stream) option"
    and grid rs r
  assume ih: "\<And>g s y. f g s = Some y \<Longrightarrow> \<not> (s = sconst v
            \<and> (\<exists>c. getCellState g (fst (huntDraw (sconst v))) (snd (huntDraw (sconst v))) = Inr c
                    \<and> c \<noteq> CELL_EMPTY))"
    and step: "(let x = of_nat (arduino_random 0 GRID_SIZE (shd rs));
          y = of_nat (arduino_random 0 GRID_SIZE (shd (stl rs)));
          rs' = stl (stl rs)
      in case getCellState grid x y of
           Inl e \<Rightarrow> Some (Inl e)
         | Inr c \<Rightarrow> if c = CELL_EMPTY then Some (Inr (x, y, rs')) else f grid rs') = Some r"
  show "\<not> (rs = sconst v
            \<and> (\<exists>c. getCellState grid (fst (huntDraw (sconst v))) (snd (huntDraw (sconst v))) = Inr c
                    \<and> c \<noteq> CELL_EMPTY))"
  proof
    assume a: "rs = sconst v
            \<and> (\<exists>c. getCellState grid (fst (huntDraw (sconst v))) (snd (huntDraw (sconst v))) = Inr c
                    \<and> c \<noteq> CELL_EMPTY)"
    then obtain c where rs: "rs = sconst v"
      and c: "getCellState grid (fst (huntDraw (sconst v))) (snd (huntDraw (sconst v))) = Inr c"
      and ne: "c \<noteq> CELL_EMPTY" by blast
    from step have "f grid (sconst v) = Some r"
      using c ne unfolding rs by (simp add: huntDraw_def Let_def)
    from ih[OF this] show False using c ne by blast
  qed
qed

lemma huntSample_diverges:
  assumes "getCellState grid (fst (huntDraw (sconst v))) (snd (huntDraw (sconst v))) = Inr c"
    and "c \<noteq> CELL_EMPTY"
  shows "huntSample grid (sconst v) = None"
proof (cases "huntSample grid (sconst v)")
  case None
  then show ?thesis .
next
  case (Some r)
  from huntSample_sconst_aux[OF this, of v] assms show ?thesis by blast
qed

subsection \<open>Target mode: the scan of the target list\<close>

lemma u8_less4_unat: "(ti::u8) < 4 \<longleftrightarrow> unat ti < 4"
  by (simp add: word_less_nat_alt)

lemma u8_succ_unat: "unat (ti::u8) < 255 \<Longrightarrow> unat (ti + 1) = unat ti + 1"
  by (simp add: unat_word_ariths)

lemma targetScan_spec:
  assumes "length grid = totalGridBytes" "length targets = 4"
    and "\<forall>t \<in> set targets. inBounds (fst t) (snd t)"
  shows "\<exists>v x' y' ti'. targetScan grid targets ti x y = Inr (v, x', y', ti')
           \<and> (v \<longrightarrow> unat ti < unat ti' \<and> unat ti' \<le> 4
                    \<and> (x', y') = targets ! (unat ti' - 1)
                    \<and> (x', y') \<in> untried grid)
           \<and> (\<forall>j. unat ti \<le> j \<and> j < (if v then unat ti' - 1 else 4)
                    \<longrightarrow> targets ! j \<notin> untried grid)
           \<and> (\<not> v \<longrightarrow> ti' = (if ti < 4 then 4 else ti))"
  using assms
proof (induction grid targets ti x y rule: targetScan.induct)
  case (1 grid targets ti x y)
  note len = "1.prems"(1) and tl = "1.prems"(2) and inb = "1.prems"(3)
  show ?case
  proof (cases "ti < 4")
    case False
    then have "targetScan grid targets ti x y = Inr (False, x, y, ti)"
      by (subst targetScan.simps) simp
    moreover have "\<not> unat ti < 4" using False by (simp add: u8_less4_unat)
    ultimately show ?thesis using False
      by (rule_tac x = False in exI, rule_tac x = x in exI, rule_tac x = y in exI,
          rule_tac x = ti in exI) auto
  next
    case True
    then have lt: "unat ti < 4" by (simp add: u8_less4_unat)
    then have nth_in: "targets ! unat ti \<in> set targets" using tl by simp
    define x' where "x' = fst (targets ! unat ti)"
    define y' where "y' = snd (targets ! unat ti)"
    have ib: "inBounds x' y'" using inb nth_in by (simp add: x'_def y'_def)
    obtain c where c: "getCellState grid x' y' = Inr c"
      using getCellState_inBounds[OF len ib] by blast
    have suc: "unat (ti + 1) = unat ti + 1" using lt by (intro u8_succ_unat) simp
    show ?thesis
    proof (cases "c = CELL_EMPTY")
      case e: True
      have "targetScan grid targets ti x y = Inr (True, x', y', ti + 1)"
        using True lt tl c e by (subst targetScan.simps) (simp add: x'_def y'_def Let_def)
      moreover have "(x', y') \<in> untried grid" using ib c e by (simp add: untried_iff)
      moreover have "(x', y') = targets ! (unat (ti + 1) - 1)"
        using suc by (simp add: x'_def y'_def)
      ultimately show ?thesis using suc lt
        by (rule_tac x = True in exI, rule_tac x = x' in exI, rule_tac x = y' in exI,
            rule_tac x = "ti + 1" in exI) auto
    next
      case ne: False
      have step: "targetScan grid targets ti x y = targetScan grid targets (ti + 1) x' y'"
        using True lt tl c ne by (subst targetScan.simps) (simp add: x'_def y'_def Let_def)
      have nu: "targets ! unat ti \<notin> untried grid"
        using c ne by (cases "targets ! unat ti") (simp add: untried_iff x'_def y'_def)
      have "\<not> length targets \<le> unat ti" using lt tl by simp
      from "1.IH"[OF True this x'_def y'_def refl c ne len tl inb]
      obtain v xr yr tr where r: "targetScan grid targets (ti + 1) x' y' = Inr (v, xr, yr, tr)"
        and rv: "v \<longrightarrow> unat (ti + 1) < unat tr \<and> unat tr \<le> 4
                    \<and> (xr, yr) = targets ! (unat tr - 1)
                    \<and> (xr, yr) \<in> untried grid"
        and rj: "\<forall>j. unat (ti + 1) \<le> j \<and> j < (if v then unat tr - 1 else 4)
                    \<longrightarrow> targets ! j \<notin> untried grid"
        and rn: "\<not> v \<longrightarrow> tr = (if ti + 1 < 4 then 4 else ti + 1)"
        by blast
      have j: "\<forall>j. unat ti \<le> j \<and> j < (if v then unat tr - 1 else 4)
                    \<longrightarrow> targets ! j \<notin> untried grid"
      proof (intro allI impI)
        fix j assume a: "unat ti \<le> j \<and> j < (if v then unat tr - 1 else 4)"
        show "targets ! j \<notin> untried grid"
        proof (cases "j = unat ti")
          case True then show ?thesis using nu by simp
        next
          case False
          then have "unat (ti + 1) \<le> j" using a suc by simp
          then show ?thesis using rj a by blast
        qed
      qed
      have n: "\<not> v \<longrightarrow> tr = (if ti < 4 then 4 else ti)"
      proof
        assume "\<not> v"
        then have tr: "tr = (if ti + 1 < 4 then 4 else ti + 1)" using rn by blast
        show "tr = (if ti < 4 then 4 else ti)"
        proof (cases "ti + 1 < 4")
          case True then show ?thesis using tr \<open>ti < 4\<close> by simp
        next
          case False
          then have "unat (ti + 1) = 4" using suc lt by (simp add: u8_less4_unat)
          then have "ti + 1 = 4" by (simp add: word_unat_eq_iff)
          then show ?thesis using tr False \<open>ti < 4\<close> by simp
        qed
      qed
      have rv': "v \<longrightarrow> unat ti < unat tr \<and> unat tr \<le> 4
                    \<and> (xr, yr) = targets ! (unat tr - 1)
                    \<and> (xr, yr) \<in> untried grid"
        using rv suc by auto
      show ?thesis
        unfolding step r
        by (rule_tac x = v in exI, rule_tac x = xr in exI, rule_tac x = yr in exI,
            rule_tac x = tr in exI) (intro conjI refl rv' j n)
    qed
  qed
qed

lemma targets_update_ok:
  assumes "length t = 4 \<and> (\<forall>e \<in> set t. inBounds (fst e) (snd e))" "inBounds a b"
  shows "length (t[i := (a, b)]) = 4 \<and> (\<forall>e \<in> set (t[i := (a, b)]). inBounds (fst e) (snd e))"
proof -
  have "set (t[i := (a, b)]) \<subseteq> insert (a, b) (set t)" by (rule set_update_subset_insert)
  then show ?thesis using assms by auto
qed

lemma u8_pos_unat: "(0::u8) < x \<longleftrightarrow> 0 < unat x"
  by (simp add: word_less_nat_alt)

lemma u8_pred_unat: "0 < unat (x::u8) \<Longrightarrow> unat (x - 1) = unat x - 1"
  by (simp add: unat_minus_one unat_gt_0)

lemma buildTargetList_targets:
  "targetList (buildTargetList g) =
     (let t0 = targetList g;
          p1 = (if lastHitX g > 0 then (t0[0 := (lastHitX g - 1, lastHitY g)], Suc 0) else (t0, 0));
          p2 = (if unat (lastHitX g) < GRID_SIZE - 1
                then ((fst p1)[snd p1 := (lastHitX g + 1, lastHitY g)], snd p1 + 1) else p1);
          p3 = (if lastHitY g > 0
                then ((fst p2)[snd p2 := (lastHitX g, lastHitY g - 1)], snd p2 + 1) else p2);
          p4 = (if unat (lastHitY g) < GRID_SIZE - 1
                then ((fst p3)[snd p3 := (lastHitX g, lastHitY g + 1)], snd p3 + 1) else p3)
      in fst p4)"
  by (simp add: buildTargetList_def Let_def split_beta)

lemma buildTargetList_other [simp]:
  "playerGrid (buildTargetList g) = playerGrid g"
  "arduinoGrid (buildTargetList g) = arduinoGrid g"
  "playerAttackGrid (buildTargetList g) = playerAttackGrid g"
  "arduinoAttackGrid (buildTargetList g) = arduinoAttackGrid g"
  "lastHitX (buildTargetList g) = lastHitX g"
  "lastHitY (buildTargetList g) = lastHitY g"
  "arduinoAttackMode (buildTargetList g) = arduinoAttackMode g"
  "gameState (buildTargetList g) = gameState g"
  "targetIndex (buildTargetList g) = 0"
  "targetListInitialized (buildTargetList g)"
  by (simp_all add: buildTargetList_def Let_def split_beta)

lemma buildTargetList_aiInv:
  assumes "aiInv g"
  shows "aiInv (buildTargetList g)"
proof -
  let ?ok = "\<lambda>t. length t = 4 \<and> (\<forall>e \<in> set t. inBounds (fst e) (snd e))"
  have hx: "unat (lastHitX g) < 10" and hy: "unat (lastHitY g) < 10"
    using assms by (simp_all add: aiInv_def inBounds_def GRID_SIZE_def)
  have t0: "?ok (targetList g)" using assms by (simp add: aiInv_def)
  define p1 where "p1 = (if lastHitX g > 0 then ((targetList g)[0 := (lastHitX g - 1, lastHitY g)], Suc 0)
                         else (targetList g, 0))"
  define p2 where "p2 = (if unat (lastHitX g) < GRID_SIZE - 1
                then ((fst p1)[snd p1 := (lastHitX g + 1, lastHitY g)], snd p1 + 1) else p1)"
  define p3 where "p3 = (if lastHitY g > 0
                then ((fst p2)[snd p2 := (lastHitX g, lastHitY g - 1)], snd p2 + 1) else p2)"
  define p4 where "p4 = (if unat (lastHitY g) < GRID_SIZE - 1
                then ((fst p3)[snd p3 := (lastHitX g, lastHitY g + 1)], snd p3 + 1) else p3)"
  have b1: "lastHitX g > 0 \<Longrightarrow> inBounds (lastHitX g - 1) (lastHitY g)"
    using hx hy by (simp add: inBounds_def GRID_SIZE_def u8_pos_unat u8_pred_unat)
  have b2: "unat (lastHitX g) < GRID_SIZE - 1 \<Longrightarrow> inBounds (lastHitX g + 1) (lastHitY g)"
    using hx hy by (simp add: inBounds_def GRID_SIZE_def u8_succ_unat)
  have b3: "lastHitY g > 0 \<Longrightarrow> inBounds (lastHitX g) (lastHitY g - 1)"
    using hx hy by (simp add: inBounds_def GRID_SIZE_def u8_pos_unat u8_pred_unat)
  have b4: "unat (lastHitY g) < GRID_SIZE - 1 \<Longrightarrow> inBounds (lastHitX g) (lastHitY g + 1)"
    using hx hy by (simp add: inBounds_def GRID_SIZE_def u8_succ_unat)
  have o1: "?ok (fst p1)" unfolding p1_def using targets_update_ok[OF t0 b1] t0 by simp
  have o2: "?ok (fst p2)" unfolding p2_def using targets_update_ok[OF o1 b2] o1 by simp
  have o3: "?ok (fst p3)" unfolding p3_def using targets_update_ok[OF o2 b3] o2 by simp
  have o4: "?ok (fst p4)" unfolding p4_def using targets_update_ok[OF o3 b4] o3 by simp
  have "targetList (buildTargetList g) = fst p4"
    unfolding buildTargetList_targets p1_def p2_def p3_def p4_def Let_def by simp
  then show ?thesis
    using o4 assms by (simp add: aiInv_def)
qed

subsection \<open>One call of the opponent\<close>

lemma untried_after_mark:
  assumes "markedBoth att att' def def' x y m" "m \<noteq> CELL_EMPTY"
  shows "untried att' = untried att - {(x, y)}"
proof -
  have same: "getCellState att' x y = Inr m"
    and other: "\<And>x' y'. inBounds x' y' \<Longrightarrow> (x', y') \<noteq> (x, y) \<Longrightarrow>
                  getCellState att' x' y' = getCellState att x' y'"
    using assms(1) by (auto simp add: markedBoth_def)
  show ?thesis
  proof (intro set_eqI iffI)
    fix c assume c: "c \<in> untried att'"
    obtain a b where ab: "c = (a, b)" by (cases c)
    have ne: "(a, b) \<noteq> (x, y)" using c same assms(2) unfolding ab by (auto simp add: untried_iff)
    then show "c \<in> untried att - {(x, y)}"
      using c other[of a b] unfolding ab by (simp add: untried_iff)
  next
    fix c assume c: "c \<in> untried att - {(x, y)}"
    obtain a b where ab: "c = (a, b)" by (cases c)
    then show "c \<in> untried att'"
      using c other[of a b] unfolding ab by (simp add: untried_iff)
  qed
qed

text \<open>One resolved attack of the opponent at an untried in-bounds cell.\<close>

lemma resolve_untried:
  assumes "aiInv g" "(x, y) \<in> untried (arduinoAttackGrid g)"
  shows "\<exists>g' m. arduinoResolveAndCheck g x y = Inr g'
           \<and> m \<in> {CELL_HIT, CELL_MISS}
           \<and> markedBoth (arduinoAttackGrid g) (arduinoAttackGrid g') (playerGrid g) (playerGrid g') x y m
           \<and> untried (arduinoAttackGrid g') = untried (arduinoAttackGrid g) - {(x, y)}
           \<and> untried (arduinoAttackGrid g') \<subset> untried (arduinoAttackGrid g)
           \<and> aiInv g'"
proof -
  have ib: "inBounds x y" using assms(2) by (simp add: untried_iff)
  have l1: "length (playerGrid g) = totalGridBytes"
    and l2: "length (arduinoAttackGrid g) = totalGridBytes"
    using assms(1) by (simp_all add: aiInv_def)
  define m where "m = (if getCellState (playerGrid g) x y = Inr CELL_SHIP then CELL_HIT else CELL_MISS)"
  obtain g' where r: "arduinoResolveAndCheck g x y = Inr g'"
    and mb: "markedBoth (arduinoAttackGrid g) (arduinoAttackGrid g') (playerGrid g) (playerGrid g') x y m"
    and tl: "targetList g' = targetList g"
    and lh: "if m = CELL_HIT
               then lastHitX g' = x \<and> lastHitY g' = y \<and> arduinoAttackMode g' = TARGET_MODE
                    \<and> targetIndex g' = 0 \<and> \<not> targetListInitialized g'
               else lastHitX g' = lastHitX g \<and> lastHitY g' = lastHitY g
                    \<and> arduinoAttackMode g' = arduinoAttackMode g
                    \<and> targetIndex g' = targetIndex g
                    \<and> targetListInitialized g' = targetListInitialized g"
    using arduinoResolveAndCheck_ok[OF l1 l2 ib] unfolding m_def by blast
  have mm: "m \<in> {CELL_HIT, CELL_MISS}" by (simp add: m_def)
  then have ne: "m \<noteq> CELL_EMPTY" by (auto simp add: CELL_HIT_def CELL_MISS_def CELL_EMPTY_def)
  have u: "untried (arduinoAttackGrid g') = untried (arduinoAttackGrid g) - {(x, y)}"
    by (rule untried_after_mark[OF mb ne])
  have sub: "untried (arduinoAttackGrid g') \<subset> untried (arduinoAttackGrid g)"
    unfolding u using assms(2) by blast
  have "inBounds (lastHitX g') (lastHitY g')"
    using lh ib assms(1) by (auto simp add: aiInv_def split: if_splits)
  then have "aiInv g'"
    using mb tl assms(1) by (simp add: aiInv_def markedBoth_def)
  then show ?thesis using r mm mb u sub by blast
qed

lemma arduinoAttack_hunt:
  assumes "aiInv g" "arduinoAttackMode g = HUNT_MODE"
    and "huntDraw (sdrop (2 * k) rs) \<in> untried (arduinoAttackGrid g)"
  shows "\<exists>j g'. j \<le> k \<and> huntDraw (sdrop (2 * j) rs) \<in> untried (arduinoAttackGrid g)
           \<and> arduinoResolveAndCheck g (fst (huntDraw (sdrop (2 * j) rs)))
                 (snd (huntDraw (sdrop (2 * j) rs))) = Inr g'
           \<and> arduinoAttack g rs = Some (Inr (g', sdrop (2 * j + 2) rs))"
proof -
  have l2: "length (arduinoAttackGrid g) = totalGridBytes"
    using assms(1) by (simp add: aiInv_def)
  from huntSample_finds[OF l2 assms(3)] obtain j where j: "j \<le> k"
    and u: "huntDraw (sdrop (2 * j) rs) \<in> untried (arduinoAttackGrid g)"
    and h: "huntSample (arduinoAttackGrid g) rs =
               Some (Inr (fst (huntDraw (sdrop (2 * j) rs)), snd (huntDraw (sdrop (2 * j) rs)),
                          sdrop (2 * j + 2) rs))"
    by blast
  obtain g' where r: "arduinoResolveAndCheck g (fst (huntDraw (sdrop (2 * j) rs)))
                 (snd (huntDraw (sdrop (2 * j) rs))) = Inr g'"
    using resolve_untried[OF assms(1), of "fst (huntDraw (sdrop (2 * j) rs))"
        "snd (huntDraw (sdrop (2 * j) rs))"] u by auto
  have "arduinoAttack g rs = Some (Inr (g', sdrop (2 * j + 2) rs))"
    using assms(2) h r by (subst arduinoAttack.simps) simp
  then show ?thesis using j u r by blast
qed

lemma targetsReady_other [simp]:
  "playerGrid (targetsReady g) = playerGrid g"
  "arduinoGrid (targetsReady g) = arduinoGrid g"
  "playerAttackGrid (targetsReady g) = playerAttackGrid g"
  "arduinoAttackGrid (targetsReady g) = arduinoAttackGrid g"
  "lastHitX (targetsReady g) = lastHitX g"
  "lastHitY (targetsReady g) = lastHitY g"
  "arduinoAttackMode (targetsReady g) = arduinoAttackMode g"
  "gameState (targetsReady g) = gameState g"
  by (simp_all add: targetsReady_def)

lemma targetsReady_aiInv: "aiInv g \<Longrightarrow> aiInv (targetsReady g)"
  by (simp add: targetsReady_def buildTargetList_aiInv)

lemma aiInv_targetIndex [simp]: "aiInv (g\<lparr>targetIndex := ti\<rparr>) = aiInv g"
  by (simp add: aiInv_def)

lemma aiInv_mode [simp]: "aiInv (g\<lparr>arduinoAttackMode := m\<rparr>) = aiInv g"
  by (simp add: aiInv_def)

lemma huntFallback_facts:
  "arduinoAttackMode (huntFallback g) = HUNT_MODE"
  "arduinoAttackGrid (huntFallback g) = arduinoAttackGrid g"
  "playerGrid (huntFallback g) = playerGrid g"
  "aiInv g \<Longrightarrow> aiInv (huntFallback g)"
  by (simp_all add: huntFallback_def targetsReady_aiInv)

lemma arduinoAttack_target_unfold:
  assumes "arduinoAttackMode g = TARGET_MODE"
  shows "arduinoAttack g rs =
     (case targetScan (arduinoAttackGrid g) (targetList (targetsReady g))
             (targetIndex (targetsReady g)) 0 0 of
        Inl e \<Rightarrow> Some (Inl e)
      | Inr (validAttack, x, y, ti) \<Rightarrow>
          if validAttack then
            Some (thenF (arduinoResolveAndCheck ((targetsReady g)\<lparr>targetIndex := ti\<rparr>) x y)
                    (\<lambda>g2. Inr (g2, rs)))
          else arduinoAttack ((targetsReady g)\<lparr>targetIndex := ti, arduinoAttackMode := HUNT_MODE\<rparr>) rs)"
  using assms
  by (subst arduinoAttack.simps) (simp add: Let_def)

text \<open>Target mode with an untried candidate left in the list.\<close>

lemma arduinoAttack_target_valid:
  assumes "aiInv g" "arduinoAttackMode g = TARGET_MODE" "\<not> queueExhausted g"
  shows "\<exists>x y ti g'. (x, y) \<in> untried (arduinoAttackGrid g)
           \<and> (x, y) \<in> set (targetList (targetsReady g))
           \<and> arduinoResolveAndCheck ((targetsReady g)\<lparr>targetIndex := ti\<rparr>) x y = Inr g'
           \<and> arduinoAttack g rs = Some (Inr (g', rs))"
proof -
  let ?g1 = "targetsReady g"
  have inv1: "aiInv ?g1" by (rule targetsReady_aiInv[OF assms(1)])
  then have l: "length (arduinoAttackGrid g) = totalGridBytes" "length (targetList ?g1) = 4"
    "\<forall>t \<in> set (targetList ?g1). inBounds (fst t) (snd t)"
    by (simp_all add: aiInv_def)
  from targetScan_spec[OF l, of "targetIndex ?g1" 0 0]
  obtain v x y ti where s: "targetScan (arduinoAttackGrid g) (targetList ?g1) (targetIndex ?g1) 0 0
        = Inr (v, x, y, ti)"
    and sv: "v \<longrightarrow> unat (targetIndex ?g1) < unat ti \<and> unat ti \<le> 4
                    \<and> (x, y) = targetList ?g1 ! (unat ti - 1)
                    \<and> (x, y) \<in> untried (arduinoAttackGrid g)"
    and sj: "\<forall>j. unat (targetIndex ?g1) \<le> j \<and> j < (if v then unat ti - 1 else 4)
                    \<longrightarrow> targetList ?g1 ! j \<notin> untried (arduinoAttackGrid g)"
    by blast
  have v: v
  proof (rule ccontr)
    assume "\<not> v"
    then have "queueExhausted g" using sj by (simp add: queueExhausted_def)
    then show False using assms(3) by simp
  qed
  then have u: "(x, y) \<in> untried (arduinoAttackGrid g)"
    and at: "(x, y) = targetList ?g1 ! (unat ti - 1)" and ti: "unat ti \<le> 4" "0 < unat ti"
    using sv by auto
  have mem: "(x, y) \<in> set (targetList ?g1)"
    unfolding at using l(2) ti by (intro nth_mem) simp
  have inv2: "aiInv (?g1\<lparr>targetIndex := ti\<rparr>)" using inv1 by simp
  have u2: "(x, y) \<in> untried (arduinoAttackGrid (?g1\<lparr>targetIndex := ti\<rparr>))" using u by simp
  from resolve_untried[OF inv2 u2] obtain g'
    where r: "arduinoResolveAndCheck (?g1\<lparr>targetIndex := ti\<rparr>) x y = Inr g'" by blast
  have "arduinoAttack g rs = Some (Inr (g', rs))"
    unfolding arduinoAttack_target_unfold[OF assms(2)] s using v r by simp
  then show ?thesis using u mem r by blast
qed

text \<open>Target mode with no untried candidate left: the call is the call in hunt mode.\<close>

lemma arduinoAttack_target_fallback:
  assumes "aiInv g" "arduinoAttackMode g = TARGET_MODE" "queueExhausted g"
  shows "arduinoAttack g rs = arduinoAttack (huntFallback g) rs"
proof -
  let ?g1 = "targetsReady g"
  have inv1: "aiInv ?g1" by (rule targetsReady_aiInv[OF assms(1)])
  then have l: "length (arduinoAttackGrid g) = totalGridBytes" "length (targetList ?g1) = 4"
    "\<forall>t \<in> set (targetList ?g1). inBounds (fst t) (snd t)"
    by (simp_all add: aiInv_def)
  from targetScan_spec[OF l, of "targetIndex ?g1" 0 0]
  obtain v x y ti where s: "targetScan (arduinoAttackGrid g) (targetList ?g1) (targetIndex ?g1) 0 0
        = Inr (v, x, y, ti)"
    and sv: "v \<longrightarrow> unat (targetIndex ?g1) < unat ti \<and> unat ti \<le> 4
                    \<and> (x, y) = targetList ?g1 ! (unat ti - 1)
                    \<and> (x, y) \<in> untried (arduinoAttackGrid g)"
    and sn: "\<not> v \<longrightarrow> ti = (if targetIndex ?g1 < 4 then 4 else targetIndex ?g1)"
    by blast
  have nv: "\<not> v"
  proof
    assume v
    then have a: "unat (targetIndex ?g1) < unat ti" "unat ti \<le> 4"
      "targetList ?g1 ! (unat ti - 1) \<in> untried (arduinoAttackGrid g)"
      using sv by auto
    then have "unat ti - 1 \<in> {unat (targetIndex ?g1) ..< 4}" by auto
    then show False using assms(3) a(3) unfolding queueExhausted_def by blast
  qed
  then have ti: "ti = (if targetIndex ?g1 < 4 then 4 else targetIndex ?g1)" using sn by blast
  show ?thesis
    unfolding arduinoAttack_target_unfold[OF assms(2)] s using nv
    by (simp add: huntFallback_def ti)
qed

lemma resolved_props:
  assumes "aiInv g0" "(x, y) \<in> untried (arduinoAttackGrid g0)"
    and "arduinoResolveAndCheck g0 x y = Inr g'"
  shows "\<exists>m. m \<in> {CELL_HIT, CELL_MISS}
           \<and> markedBoth (arduinoAttackGrid g0) (arduinoAttackGrid g') (playerGrid g0) (playerGrid g') x y m
           \<and> untried (arduinoAttackGrid g') = untried (arduinoAttackGrid g0) - {(x, y)}
           \<and> untried (arduinoAttackGrid g') \<subset> untried (arduinoAttackGrid g0)
           \<and> aiInv g'"
  using resolve_untried[OF assms(1,2)] assms(3) by auto

subsection \<open>The random source\<close>

lemma huntDraw_sdrop:
  "huntDraw (sdrop n rs) = (of_nat (arduino_random 0 GRID_SIZE (rs !! n)),
                            of_nat (arduino_random 0 GRID_SIZE (rs !! Suc n)))"
  by (simp add: huntDraw_def sdrop_snth[symmetric] del: sdrop_snth)

lemma sweepSource_snth:
  "sweepSource !! n = (if even n then (n div 2) mod 10 else (n div 2) div 10)"
  by (simp add: sweepSource_def)

lemma fairSource_sweepSource: "fairSource sweepSource"
  unfolding fairSource_def
proof (intro allI impI)
  fix x y :: u8
  assume ib: "inBounds x y"
  then have bx: "unat x < 10" and by': "unat y < 10" by (simp_all add: inBounds_def GRID_SIZE_def)
  define k where "k = unat x + 10 * unat y"
  have a: "sweepSource !! (2 * k) = unat x"
    using bx by (simp add: sweepSource_snth k_def)
  have b: "sweepSource !! Suc (2 * k) = unat y"
    using bx by' unfolding sweepSource_snth by (simp add: k_def)
  have "huntDraw (sdrop (2 * k) sweepSource) = (x, y)"
    unfolding huntDraw_sdrop a b using bx by'
    by (simp add: arduino_random_def GRID_SIZE_def)
  then show "\<exists>k. huntDraw (sdrop (2 * k) sweepSource) = (x, y)" by blast
qed

text \<open>A fair source draws an untried cell as soon as there is one.\<close>

lemma fairSource_draws_untried:
  assumes "fairSource rs" "untried grid \<noteq> {}"
  shows "\<exists>k. huntDraw (sdrop (2 * k) rs) \<in> untried grid"
proof -
  from assms(2) obtain x y where u: "(x, y) \<in> untried grid" by auto
  then have "inBounds x y" by (simp add: untried_iff)
  with assms(1) obtain k where "huntDraw (sdrop (2 * k) rs) = (x, y)"
    unfolding fairSource_def by blast
  with u show ?thesis by (intro exI[of _ k]) simp
qed

text \<open>A source that never draws an untried cell keeps the hunt loop running for ever.\<close>

lemma huntSample_never_aux:
  assumes "huntSample grid rs = Some r"
  shows "\<not> (\<forall>k. \<exists>c. getCellState grid (fst (huntDraw (sdrop (2 * k) rs)))
                         (snd (huntDraw (sdrop (2 * k) rs))) = Inr c \<and> c \<noteq> CELL_EMPTY)"
proof (rule huntSample.raw_induct[where P = "\<lambda>grid rs r.
          \<not> (\<forall>k. \<exists>c. getCellState grid (fst (huntDraw (sdrop (2 * k) rs)))
                         (snd (huntDraw (sdrop (2 * k) rs))) = Inr c \<and> c \<noteq> CELL_EMPTY)", OF _ assms])
  fix f :: "grid \<Rightarrow> nat stream \<Rightarrow> (fault + u8 \<times> u8 \<times> nat stream) option"
    and grid rs r
  assume ih: "\<And>g s y. f g s = Some y \<Longrightarrow>
          \<not> (\<forall>k. \<exists>c. getCellState g (fst (huntDraw (sdrop (2 * k) s)))
                         (snd (huntDraw (sdrop (2 * k) s))) = Inr c \<and> c \<noteq> CELL_EMPTY)"
    and step: "(let x = of_nat (arduino_random 0 GRID_SIZE (shd rs));
          y = of_nat (arduino_random 0 GRID_SIZE (shd (stl rs)));
          rs' = stl (stl rs)
      in case getCellState grid x y of
           Inl e \<Rightarrow> Some (Inl e)
         | Inr c \<Rightarrow> if c = CELL_EMPTY then Some (Inr (x, y, rs')) else f grid rs') = Some r"
  show "\<not> (\<forall>k. \<exists>c. getCellState grid (fst (huntDraw (sdrop (2 * k) rs)))
                         (snd (huntDraw (sdrop (2 * k) rs))) = Inr c \<and> c \<noteq> CELL_EMPTY)"
  proof
    assume a: "\<forall>k. \<exists>c. getCellState grid (fst (huntDraw (sdrop (2 * k) rs)))
                         (snd (huntDraw (sdrop (2 * k) rs))) = Inr c \<and> c \<noteq> CELL_EMPTY"
    from a[rule_format, of 0] obtain c
      where c: "getCellState grid (fst (huntDraw rs)) (snd (huntDraw rs)) = Inr c"
        and ne: "c \<noteq> CELL_EMPTY" by auto
    from step have "f grid (stl (stl rs)) = Some r"
      using c ne by (simp add: huntDraw_def Let_def)
    from ih[OF this] obtain k where
      k: "\<not> (\<exists>c. getCellState grid (fst (huntDraw (sdrop (2 * k) (stl (stl rs)))))
                         (snd (huntDraw (sdrop (2 * k) (stl (stl rs))))) = Inr c \<and> c \<noteq> CELL_EMPTY)"
      by blast
    from a[rule_format, of "Suc k"] k show False by simp
  qed
qed

lemma huntSample_never:
  assumes "length grid = totalGridBytes"
    and "\<forall>k. huntDraw (sdrop (2 * k) rs) \<notin> untried grid"
  shows "huntSample grid rs = None"
proof (cases "huntSample grid rs")
  case None
  then show ?thesis .
next
  case (Some r)
  have "\<forall>k. \<exists>c. getCellState grid (fst (huntDraw (sdrop (2 * k) rs)))
                         (snd (huntDraw (sdrop (2 * k) rs))) = Inr c \<and> c \<noteq> CELL_EMPTY"
  proof
    fix k
    let ?d = "huntDraw (sdrop (2 * k) rs)"
    have ib: "inBounds (fst ?d) (snd ?d)" by (rule huntDraw_inBounds)
    from getCellState_inBounds[OF assms(1) ib] obtain c
      where c: "getCellState grid (fst ?d) (snd ?d) = Inr c" by blast
    have "c \<noteq> CELL_EMPTY"
      using ib c assms(2)[rule_format, of k] by (cases ?d) (auto simp add: untried_iff)
    then show "\<exists>c. getCellState grid (fst ?d) (snd ?d) = Inr c \<and> c \<noteq> CELL_EMPTY"
      using c by blast
  qed
  with huntSample_never_aux[OF Some] show ?thesis by blast
qed

lemma arduinoAttack_hunt_never:
  assumes "aiInv g" "arduinoAttackMode g = HUNT_MODE"
    and "\<forall>k. huntDraw (sdrop (2 * k) rs) \<notin> untried (arduinoAttackGrid g)"
  shows "arduinoAttack g rs = None"
proof -
  have "length (arduinoAttackGrid g) = totalGridBytes" using assms(1) by (simp add: aiInv_def)
  from huntSample_never[OF this assms(3)] show ?thesis
    using assms(2) by (subst arduinoAttack.simps) simp
qed

lemma huntReached_cases:
  "huntReached g \<longleftrightarrow> \<not> (arduinoAttackMode g = TARGET_MODE \<and> \<not> queueExhausted g)"
  by (cases "arduinoAttackMode g") (auto simp add: huntReached_def)

text \<open>
  When one call returns: always in target mode with an untried candidate left, and
  otherwise exactly when some pass of the hunt loop draws an untried cell.
\<close>

lemma arduinoAttack_returns_iff:
  assumes "aiInv g"
  shows "arduinoAttack g rs \<noteq> None \<longleftrightarrow>
           (huntReached g \<longrightarrow> (\<exists>k. huntDraw (sdrop (2 * k) rs) \<in> untried (arduinoAttackGrid g)))"
proof -
  consider (hunt) "arduinoAttackMode g = HUNT_MODE"
    | (target) "arduinoAttackMode g = TARGET_MODE" "\<not> queueExhausted g"
    | (fallback) "arduinoAttackMode g = TARGET_MODE" "queueExhausted g"
    by (cases "arduinoAttackMode g") auto
  then show ?thesis
  proof cases
    case hunt
    then have hr: "huntReached g" by (simp add: huntReached_def)
    show ?thesis
    proof (cases "\<exists>k. huntDraw (sdrop (2 * k) rs) \<in> untried (arduinoAttackGrid g)")
      case True
      then obtain k where "huntDraw (sdrop (2 * k) rs) \<in> untried (arduinoAttackGrid g)" by blast
      from arduinoAttack_hunt[OF assms hunt this] have "arduinoAttack g rs \<noteq> None" by auto
      then show ?thesis using True by simp
    next
      case False
      then have "\<forall>k. huntDraw (sdrop (2 * k) rs) \<notin> untried (arduinoAttackGrid g)" by blast
      from arduinoAttack_hunt_never[OF assms hunt this] show ?thesis using False hr by simp
    qed
  next
    case target
    then have "\<not> huntReached g" by (simp add: huntReached_cases)
    moreover from arduinoAttack_target_valid[OF assms target, of rs]
    have "arduinoAttack g rs \<noteq> None" by auto
    ultimately show ?thesis by simp
  next
    case fallback
    then have hr: "huntReached g" by (simp add: huntReached_def)
    let ?h = "huntFallback g"
    have eq: "arduinoAttack g rs = arduinoAttack ?h rs"
      by (rule arduinoAttack_target_fallback[OF assms fallback])
    have inv: "aiInv ?h" and mode: "arduinoAttackMode ?h = HUNT_MODE"
      and ag: "arduinoAttackGrid ?h = arduinoAttackGrid g"
      using assms by (simp_all add: huntFallback_facts)
    show ?thesis
    proof (cases "\<exists>k. huntDraw (sdrop (2 * k) rs) \<in> untried (arduinoAttackGrid g)")
      case True
      then obtain k where "huntDraw (sdrop (2 * k) rs) \<in> untried (arduinoAttackGrid ?h)"
        using ag by auto
      from arduinoAttack_hunt[OF inv mode this] have "arduinoAttack ?h rs \<noteq> None" by auto
      then show ?thesis using True eq by simp
    next
      case False
      then have "\<forall>k. huntDraw (sdrop (2 * k) rs) \<notin> untried (arduinoAttackGrid ?h)"
        using ag by simp
      from arduinoAttack_hunt_never[OF inv mode this] show ?thesis using False hr eq by simp
    qed
  qed
qed

lemma huntDraw_sconst0: "huntDraw (sconst 0) = (0, 0)"
  by (simp add: huntDraw_def arduino_random_def GRID_SIZE_def)

lemma cell00_miss:
  "getCellState ((replicate totalGridBytes 0)[0 := 3]) 0 0 = Inr CELL_MISS"
  by (simp add: getCellState_single cellByteIndex_eq cellBitOffset_eq totalGridBytes_eq CELL_MISS_def)

lemma cell10_untried:
  "(1, 0) \<in> untried ((replicate totalGridBytes 0)[0 := 3])"
  by (simp add: untried_iff inBounds_def GRID_SIZE_def getCellState_single cellByteIndex_eq
      cellBitOffset_eq totalGridBytes_eq CELL_EMPTY_def drop_bit_eq_div)

text \<open>
  The hunt loop has no retry bound, so a source that is not fair can keep the call from
  returning: with (0, 0) already recorded as a miss and a source that returns 0 at every
  call, the loop draws (0, 0) for ever.
\<close>

lemma arduinoAttack_constant_source:
  "aiInv (initialGame\<lparr>playerGrid := (replicate totalGridBytes 0)[0 := 3],
                      arduinoAttackGrid := (replicate totalGridBytes 0)[0 := 3]\<rparr>)
   \<and> (1, 0) \<in> untried (arduinoAttackGrid
          (initialGame\<lparr>playerGrid := (replicate totalGridBytes 0)[0 := 3],
                        arduinoAttackGrid := (replicate totalGridBytes 0)[0 := 3]\<rparr>))
   \<and> arduinoAttack (initialGame\<lparr>playerGrid := (replicate totalGridBytes 0)[0 := 3],
                                 arduinoAttackGrid := (replicate totalGridBytes 0)[0 := 3]\<rparr>)
         (sconst 0) = None"
proof -
  let ?g = "initialGame\<lparr>playerGrid := (replicate totalGridBytes 0)[0 := 3],
                         arduinoAttackGrid := (replicate totalGridBytes 0)[0 := 3]\<rparr>"
  have inv: "aiInv ?g"
    by (simp add: aiInv_def initialGame_def inBounds_def GRID_SIZE_def)
  have u: "(1, 0) \<in> untried (arduinoAttackGrid ?g)"
    using cell10_untried by simp
  have tried: "getCellState ((replicate totalGridBytes 0)[0 := 3])
      (fst (huntDraw (sconst 0))) (snd (huntDraw (sconst 0))) = Inr CELL_MISS"
    using cell00_miss by (simp add: huntDraw_sconst0)
  have "CELL_MISS \<noteq> CELL_EMPTY" by (simp add: CELL_MISS_def CELL_EMPTY_def)
  from huntSample_diverges[OF tried this]
  have "huntSample (arduinoAttackGrid ?g) (sconst 0) = None" by simp
  moreover have "arduinoAttackMode ?g = HUNT_MODE" by (simp add: initialGame_def)
  ultimately have "arduinoAttack ?g (sconst 0) = None"
    by (subst arduinoAttack.simps) simp
  then show ?thesis using inv u by blast
qed

subsection \<open>Termination and the single resolved attack\<close>

text \<open>
  C7. Let the arrays the opponent reads be well formed and let at least one cell of the
  opponent's attack grid be untried. Then one call of \<^verbatim>\<open>arduinoAttack\<close> returns and resolves
  exactly one attack: one cell that was untried now holds \<^verbatim>\<open>CELL_HIT\<close> or \<^verbatim>\<open>CELL_MISS\<close> on
  the attack grid and on the player's grid, no other cell changes, and the set of untried
  cells has lost exactly that cell. In target mode with an untried candidate left the
  resolved cell is an entry of the target list and no random value is read. In target mode
  with no untried candidate left, the call is the call made in hunt mode from the fallback
  state, which does not call itself again, and the resolved cell is one drawn by the hunt
  loop.

  The random generator belongs to the Arduino core. Nothing is asked of it unless the call
  reaches the hunt loop (\<^const>\<open>huntReached\<close>). There the source is to be fair, as a uniform
  sampler is with probability one: read two values at a time, it draws every cell of the
  board at some pass (\<^const>\<open>fairSource\<close>); it is enough that it draws some untried cell at
  some pass, which by \<open>arduinoAttack_returns_iff\<close> is also the least that will do.
\<close>

theorem C7_arduinoAttack_resolves_one:
  assumes "aiInv g"
    and "untried (arduinoAttackGrid g) \<noteq> {}"
    and "huntReached g \<longrightarrow>
           fairSource rs \<or> (\<exists>k. huntDraw (sdrop (2 * k) rs) \<in> untried (arduinoAttackGrid g))"
  shows "\<exists>g' rs' x y m.
           arduinoAttack g rs = Some (Inr (g', rs'))
           \<and> (x, y) \<in> untried (arduinoAttackGrid g)
           \<and> m \<in> {CELL_HIT, CELL_MISS}
           \<and> markedBoth (arduinoAttackGrid g) (arduinoAttackGrid g') (playerGrid g) (playerGrid g') x y m
           \<and> untried (arduinoAttackGrid g') = untried (arduinoAttackGrid g) - {(x, y)}
           \<and> untried (arduinoAttackGrid g') \<subset> untried (arduinoAttackGrid g)
           \<and> aiInv g'
           \<and> (arduinoAttackMode g = TARGET_MODE \<and> \<not> queueExhausted g \<longrightarrow>
                 (x, y) \<in> set (targetList (targetsReady g)) \<and> rs' = rs)
           \<and> (arduinoAttackMode g = HUNT_MODE \<longrightarrow>
                 (\<exists>j. (x, y) = huntDraw (sdrop (2 * j) rs) \<and> rs' = sdrop (2 * j + 2) rs))
           \<and> (arduinoAttackMode g = TARGET_MODE \<and> queueExhausted g \<longrightarrow>
                 arduinoAttack g rs = arduinoAttack (huntFallback g) rs
                 \<and> arduinoAttackMode (huntFallback g) = HUNT_MODE
                 \<and> (\<exists>j. (x, y) = huntDraw (sdrop (2 * j) rs) \<and> rs' = sdrop (2 * j + 2) rs))"
proof -
  have draw: "\<exists>k. huntDraw (sdrop (2 * k) rs) \<in> untried (arduinoAttackGrid g)"
    if "huntReached g"
    using that assms(2,3) fairSource_draws_untried[of rs "arduinoAttackGrid g"] by blast
  consider (hunt) "arduinoAttackMode g = HUNT_MODE"
    | (target) "arduinoAttackMode g = TARGET_MODE" "\<not> queueExhausted g"
    | (fallback) "arduinoAttackMode g = TARGET_MODE" "queueExhausted g"
    by (cases "arduinoAttackMode g") auto
  then show ?thesis
  proof cases
    case hunt
    then have "huntReached g" by (simp add: huntReached_def)
    from draw[OF this] obtain k
      where dk: "huntDraw (sdrop (2 * k) rs) \<in> untried (arduinoAttackGrid g)" by blast
    from arduinoAttack_hunt[OF assms(1) hunt dk] obtain j g'
      where u: "huntDraw (sdrop (2 * j) rs) \<in> untried (arduinoAttackGrid g)"
        and r: "arduinoResolveAndCheck g (fst (huntDraw (sdrop (2 * j) rs)))
                 (snd (huntDraw (sdrop (2 * j) rs))) = Inr g'"
        and a: "arduinoAttack g rs = Some (Inr (g', sdrop (2 * j + 2) rs))"
      by blast
    define x where "x = fst (huntDraw (sdrop (2 * j) rs))"
    define y where "y = snd (huntDraw (sdrop (2 * j) rs))"
    have xy: "(x, y) = huntDraw (sdrop (2 * j) rs)" by (simp add: x_def y_def)
    have u': "(x, y) \<in> untried (arduinoAttackGrid g)" using u by (simp add: x_def y_def)
    from resolved_props[OF assms(1) u'] r obtain m where
      "m \<in> {CELL_HIT, CELL_MISS}
           \<and> markedBoth (arduinoAttackGrid g) (arduinoAttackGrid g') (playerGrid g) (playerGrid g') x y m
           \<and> untried (arduinoAttackGrid g') = untried (arduinoAttackGrid g) - {(x, y)}
           \<and> untried (arduinoAttackGrid g') \<subset> untried (arduinoAttackGrid g)
           \<and> aiInv g'"
      unfolding x_def y_def by blast
    moreover have "\<exists>ja. (x, y) = huntDraw (sdrop (2 * ja) rs)
        \<and> sdrop (2 * j + 2) rs = sdrop (2 * ja + 2) rs"
      using xy by blast
    ultimately show ?thesis using a u' hunt
      by (rule_tac x = g' in exI, rule_tac x = "sdrop (2 * j + 2) rs" in exI,
          rule_tac x = x in exI, rule_tac x = y in exI, rule_tac x = m in exI) simp
  next
    case target
    from arduinoAttack_target_valid[OF assms(1) target, of rs] obtain x y ti g'
      where u: "(x, y) \<in> untried (arduinoAttackGrid g)"
        and mem: "(x, y) \<in> set (targetList (targetsReady g))"
        and r: "arduinoResolveAndCheck ((targetsReady g)\<lparr>targetIndex := ti\<rparr>) x y = Inr g'"
        and a: "arduinoAttack g rs = Some (Inr (g', rs))"
      by blast
    have inv: "aiInv ((targetsReady g)\<lparr>targetIndex := ti\<rparr>)"
      using targetsReady_aiInv[OF assms(1)] by simp
    have u2: "(x, y) \<in> untried (arduinoAttackGrid ((targetsReady g)\<lparr>targetIndex := ti\<rparr>))"
      using u by simp
    from resolved_props[OF inv u2 r] obtain m where
      "m \<in> {CELL_HIT, CELL_MISS}
           \<and> markedBoth (arduinoAttackGrid g) (arduinoAttackGrid g') (playerGrid g) (playerGrid g') x y m
           \<and> untried (arduinoAttackGrid g') = untried (arduinoAttackGrid g) - {(x, y)}
           \<and> untried (arduinoAttackGrid g') \<subset> untried (arduinoAttackGrid g)
           \<and> aiInv g'"
      by auto
    then show ?thesis using a u mem target
      by (rule_tac x = g' in exI, rule_tac x = rs in exI,
          rule_tac x = x in exI, rule_tac x = y in exI, rule_tac x = m in exI) simp
  next
    case fallback
    let ?h = "huntFallback g"
    have "huntReached g" using fallback by (simp add: huntReached_def)
    from draw[OF this] obtain k
      where dk: "huntDraw (sdrop (2 * k) rs) \<in> untried (arduinoAttackGrid g)" by blast
    have eq: "arduinoAttack g rs = arduinoAttack ?h rs"
      by (rule arduinoAttack_target_fallback[OF assms(1) fallback])
    have inv: "aiInv ?h" and mode: "arduinoAttackMode ?h = HUNT_MODE"
      and ag: "arduinoAttackGrid ?h = arduinoAttackGrid g" and pg: "playerGrid ?h = playerGrid g"
      using assms(1) by (simp_all add: huntFallback_facts)
    have dr: "huntDraw (sdrop (2 * k) rs) \<in> untried (arduinoAttackGrid ?h)"
      using dk ag by simp
    from arduinoAttack_hunt[OF inv mode dr] obtain j g'
      where u: "huntDraw (sdrop (2 * j) rs) \<in> untried (arduinoAttackGrid ?h)"
        and r: "arduinoResolveAndCheck ?h (fst (huntDraw (sdrop (2 * j) rs)))
                 (snd (huntDraw (sdrop (2 * j) rs))) = Inr g'"
        and a: "arduinoAttack ?h rs = Some (Inr (g', sdrop (2 * j + 2) rs))"
      by blast
    define x where "x = fst (huntDraw (sdrop (2 * j) rs))"
    define y where "y = snd (huntDraw (sdrop (2 * j) rs))"
    have xy: "(x, y) = huntDraw (sdrop (2 * j) rs)" by (simp add: x_def y_def)
    have u': "(x, y) \<in> untried (arduinoAttackGrid ?h)" using u by (simp add: x_def y_def)
    from resolved_props[OF inv u'] r obtain m where
      "m \<in> {CELL_HIT, CELL_MISS}
           \<and> markedBoth (arduinoAttackGrid g) (arduinoAttackGrid g') (playerGrid g) (playerGrid g') x y m
           \<and> untried (arduinoAttackGrid g') = untried (arduinoAttackGrid g) - {(x, y)}
           \<and> untried (arduinoAttackGrid g') \<subset> untried (arduinoAttackGrid g)
           \<and> aiInv g'"
      unfolding x_def y_def ag pg by blast
    moreover have "\<exists>ja. (x, y) = huntDraw (sdrop (2 * ja) rs)
        \<and> sdrop (2 * j + 2) rs = sdrop (2 * ja + 2) rs"
      using xy by blast
    ultimately show ?thesis using a u' eq mode ag fallback
      by (rule_tac x = g' in exI, rule_tac x = "sdrop (2 * j + 2) rs" in exI,
          rule_tac x = x in exI, rule_tac x = y in exI, rule_tac x = m in exI) simp
  qed
qed

lemma fallbackExample_exhausted:
  "queueExhausted (initialGame\<lparr>playerGrid := (replicate totalGridBytes 0)[0 := 3],
                      arduinoAttackGrid := (replicate totalGridBytes 0)[0 := 3],
                      arduinoAttackMode := TARGET_MODE, targetListInitialized := True,
                      targetIndex := 4\<rparr>)"
  by (simp add: queueExhausted_def targetsReady_def)

theorem C7_arduinoAttack_resolves_one_witness:
  "aiInv (initialGame\<lparr>playerGrid := (replicate totalGridBytes 0)[0 := 3],
                      arduinoAttackGrid := (replicate totalGridBytes 0)[0 := 3],
                      arduinoAttackMode := TARGET_MODE, targetListInitialized := True,
                      targetIndex := 4\<rparr>)
   \<and> untried (arduinoAttackGrid
         (initialGame\<lparr>playerGrid := (replicate totalGridBytes 0)[0 := 3],
                      arduinoAttackGrid := (replicate totalGridBytes 0)[0 := 3],
                      arduinoAttackMode := TARGET_MODE, targetListInitialized := True,
                      targetIndex := 4\<rparr>)) \<noteq> {}
   \<and> huntReached (initialGame\<lparr>playerGrid := (replicate totalGridBytes 0)[0 := 3],
                      arduinoAttackGrid := (replicate totalGridBytes 0)[0 := 3],
                      arduinoAttackMode := TARGET_MODE, targetListInitialized := True,
                      targetIndex := 4\<rparr>)
   \<and> fairSource sweepSource
   \<and> arduinoAttack (initialGame\<lparr>playerGrid := (replicate totalGridBytes 0)[0 := 3],
                      arduinoAttackGrid := (replicate totalGridBytes 0)[0 := 3],
                      arduinoAttackMode := TARGET_MODE, targetListInitialized := True,
                      targetIndex := 4\<rparr>) sweepSource \<noteq> None"
proof -
  let ?g = "initialGame\<lparr>playerGrid := (replicate totalGridBytes 0)[0 := 3],
                      arduinoAttackGrid := (replicate totalGridBytes 0)[0 := 3],
                      arduinoAttackMode := TARGET_MODE, targetListInitialized := True,
                      targetIndex := 4\<rparr>"
  have inv: "aiInv ?g"
    by (simp add: aiInv_def initialGame_def inBounds_def GRID_SIZE_def)
  have ne: "untried (arduinoAttackGrid ?g) \<noteq> {}"
    using cell10_untried by auto
  have hr: "huntReached ?g"
    using fallbackExample_exhausted by (simp add: huntReached_def)
  have src: "huntReached ?g \<longrightarrow> fairSource sweepSource
      \<or> (\<exists>k. huntDraw (sdrop (2 * k) sweepSource) \<in> untried (arduinoAttackGrid ?g))"
    using fairSource_sweepSource by simp
  from C7_arduinoAttack_resolves_one[OF inv ne src]
  have "arduinoAttack ?g sweepSource \<noteq> None" by auto
  then show ?thesis using inv ne hr fairSource_sweepSource by blast
qed


section \<open>The claims on attack resolution and the win check\<close>

lemma hit_or_miss_state:
  "(if c then CELL_HIT else CELL_MISS) \<in> {CELL_EMPTY, CELL_SHIP, CELL_HIT, CELL_MISS}"
  by simp

lemma playerFire_marks:
  assumes "length (playerAttackGrid g) = totalGridBytes" "length (arduinoGrid g) = totalGridBytes"
    and "(cursorX g, cursorY g) \<in> untried (playerAttackGrid g)"
  defines "m \<equiv> (if getCellState (arduinoGrid g) (cursorX g) (cursorY g) = Inr CELL_SHIP
                   then CELL_HIT else CELL_MISS)"
  shows "\<exists>g' n. playerFire g = Inr (g', n = 0)
           \<and> markedBoth (playerAttackGrid g) (playerAttackGrid g') (arduinoGrid g) (arduinoGrid g')
                (cursorX g) (cursorY g) m
           \<and> countRemainingShips (arduinoGrid g') = Inr n
           \<and> gameState g' = (if n = 0 then GAME_OVER else ARDUINO_TURN)
           \<and> playerGrid g' = playerGrid g \<and> arduinoAttackGrid g' = arduinoAttackGrid g
           \<and> cursorX g' = cursorX g \<and> cursorY g' = cursorY g"
proof -
  have ib: "inBounds (cursorX g) (cursorY g)"
    and e: "getCellState (playerAttackGrid g) (cursorX g) (cursorY g) = Inr CELL_EMPTY"
    using assms(3) by (simp_all add: untried_iff)
  from playerFire_untried[OF assms(1,2) ib e] obtain pa ag n where
    pa: "setCellState (playerAttackGrid g) (cursorX g) (cursorY g) m = Inr pa"
    and ag: "setCellState (arduinoGrid g) (cursorX g) (cursorY g) m = Inr ag"
    and n: "countRemainingShips ag = Inr n"
    and f: "playerFire g =
               Inr (g\<lparr>playerAttackGrid := pa, arduinoGrid := ag,
                      gameState := (if n = 0 then GAME_OVER else ARDUINO_TURN)\<rparr>, n = 0)"
    unfolding m_def by blast
  have ms: "m \<in> {CELL_EMPTY, CELL_SHIP, CELL_HIT, CELL_MISS}"
    unfolding m_def by (rule hit_or_miss_state)
  have mb: "markedBoth (playerAttackGrid g) pa (arduinoGrid g) ag (cursorX g) (cursorY g) m"
    by (rule markedBoth_intro[OF assms(1,2) ib ms pa ag])
  show ?thesis
    unfolding f using mb n
    by (rule_tac x = "g\<lparr>playerAttackGrid := pa, arduinoGrid := ag,
                      gameState := (if n = 0 then GAME_OVER else ARDUINO_TURN)\<rparr>" in exI,
        rule_tac x = n in exI) simp
qed

text \<open>
  C2. An attack at an in-bounds cell that the attacker's attack grid records as untried
  marks that cell on the attacker's attack grid and on the defender's ownership grid:
  with \<^verbatim>\<open>CELL_HIT\<close> when the defender's cell held \<^verbatim>\<open>CELL_SHIP\<close>, with \<^verbatim>\<open>CELL_MISS\<close>
  otherwise (this sketch writes the miss onto the defender's grid too). No other cell of
  the two grids changes, and the two other grids are left as they were. The first part is
  the player's attack at the cursor, the second the opponent's attack at \<^verbatim>\<open>(x, y)\<close>.
\<close>

theorem C2_attack_marks_one_cell:
  "(length (playerAttackGrid g) = totalGridBytes \<and> length (arduinoGrid g) = totalGridBytes
      \<and> (cursorX g, cursorY g) \<in> untried (playerAttackGrid g)
    \<longrightarrow> (\<exists>g' r. playerFire g = Inr (g', r)
           \<and> markedBoth (playerAttackGrid g) (playerAttackGrid g') (arduinoGrid g) (arduinoGrid g')
                (cursorX g) (cursorY g)
                (if getCellState (arduinoGrid g) (cursorX g) (cursorY g) = Inr CELL_SHIP
                 then CELL_HIT else CELL_MISS)
           \<and> playerGrid g' = playerGrid g \<and> arduinoAttackGrid g' = arduinoAttackGrid g))
   \<and> (aiInv g \<and> (x, y) \<in> untried (arduinoAttackGrid g)
    \<longrightarrow> (\<exists>g'. arduinoResolveAndCheck g x y = Inr g'
           \<and> markedBoth (arduinoAttackGrid g) (arduinoAttackGrid g') (playerGrid g) (playerGrid g')
                x y
                (if getCellState (playerGrid g) x y = Inr CELL_SHIP then CELL_HIT else CELL_MISS)
           \<and> arduinoGrid g' = arduinoGrid g \<and> playerAttackGrid g' = playerAttackGrid g))"
proof (intro conjI impI)
  assume a: "length (playerAttackGrid g) = totalGridBytes \<and> length (arduinoGrid g) = totalGridBytes
      \<and> (cursorX g, cursorY g) \<in> untried (playerAttackGrid g)"
  then have a1: "length (playerAttackGrid g) = totalGridBytes"
    and a2: "length (arduinoGrid g) = totalGridBytes"
    and a3: "(cursorX g, cursorY g) \<in> untried (playerAttackGrid g)" by simp_all
  from playerFire_marks[OF a1 a2 a3]
  show "\<exists>g' r. playerFire g = Inr (g', r)
           \<and> markedBoth (playerAttackGrid g) (playerAttackGrid g') (arduinoGrid g) (arduinoGrid g')
                (cursorX g) (cursorY g)
                (if getCellState (arduinoGrid g) (cursorX g) (cursorY g) = Inr CELL_SHIP
                 then CELL_HIT else CELL_MISS)
           \<and> playerGrid g' = playerGrid g \<and> arduinoAttackGrid g' = arduinoAttackGrid g"
    by blast
next
  assume b: "aiInv g \<and> (x, y) \<in> untried (arduinoAttackGrid g)"
  then have l1: "length (playerGrid g) = totalGridBytes"
    and l2: "length (arduinoAttackGrid g) = totalGridBytes" and ib: "inBounds x y"
    by (simp_all add: aiInv_def untried_iff)
  from arduinoResolveAndCheck_ok[OF l1 l2 ib]
  show "\<exists>g'. arduinoResolveAndCheck g x y = Inr g'
           \<and> markedBoth (arduinoAttackGrid g) (arduinoAttackGrid g') (playerGrid g) (playerGrid g')
                x y
                (if getCellState (playerGrid g) x y = Inr CELL_SHIP then CELL_HIT else CELL_MISS)
           \<and> arduinoGrid g' = arduinoGrid g \<and> playerAttackGrid g' = playerAttackGrid g"
    by blast
qed

lemma cell00_untried_empty: "(0, 0) \<in> untried (replicate totalGridBytes 0)"
  by (simp add: untried_iff inBounds_def GRID_SIZE_def getCellState_single cellByteIndex_eq
      cellBitOffset_eq totalGridBytes_eq CELL_EMPTY_def)

lemma cell00_ship: "getCellState ((replicate totalGridBytes 0)[0 := 1]) 0 0 = Inr CELL_SHIP"
  by (simp add: getCellState_single cellByteIndex_eq cellBitOffset_eq totalGridBytes_eq CELL_SHIP_def)

lemma aiInv_initial_with_ship:
  "aiInv (initialGame\<lparr>playerGrid := (replicate totalGridBytes 0)[0 := 1]\<rparr>)"
  by (simp add: aiInv_def initialGame_def inBounds_def GRID_SIZE_def)

theorem C2_attack_marks_one_cell_witness:
  "length (playerAttackGrid (initialGame\<lparr>arduinoGrid := (replicate totalGridBytes 0)[0 := 1]\<rparr>))
     = totalGridBytes
   \<and> length (arduinoGrid (initialGame\<lparr>arduinoGrid := (replicate totalGridBytes 0)[0 := 1]\<rparr>))
     = totalGridBytes
   \<and> (0, 0) \<in> untried (playerAttackGrid
         (initialGame\<lparr>arduinoGrid := (replicate totalGridBytes 0)[0 := 1]\<rparr>))
   \<and> (\<exists>g' r. playerFire (initialGame\<lparr>arduinoGrid := (replicate totalGridBytes 0)[0 := 1]\<rparr>)
                 = Inr (g', r)
         \<and> getCellState (playerAttackGrid g') 0 0 = Inr CELL_HIT
         \<and> getCellState (arduinoGrid g') 0 0 = Inr CELL_HIT)
   \<and> aiInv (initialGame\<lparr>playerGrid := (replicate totalGridBytes 0)[0 := 1]\<rparr>)
   \<and> (0, 0) \<in> untried (arduinoAttackGrid
         (initialGame\<lparr>playerGrid := (replicate totalGridBytes 0)[0 := 1]\<rparr>))
   \<and> (\<exists>g'. arduinoResolveAndCheck
               (initialGame\<lparr>playerGrid := (replicate totalGridBytes 0)[0 := 1]\<rparr>) 0 0 = Inr g'
         \<and> getCellState (arduinoAttackGrid g') 0 0 = Inr CELL_HIT
         \<and> getCellState (playerGrid g') 0 0 = Inr CELL_HIT)"
proof -
  let ?g = "initialGame\<lparr>arduinoGrid := (replicate totalGridBytes 0)[0 := 1]\<rparr>"
  let ?h = "initialGame\<lparr>playerGrid := (replicate totalGridBytes 0)[0 := 1]\<rparr>"
  have g1: "length (playerAttackGrid ?g) = totalGridBytes"
    and g2: "length (arduinoGrid ?g) = totalGridBytes"
    and gc: "cursorX ?g = 0" "cursorY ?g = 0"
    and g3: "(0, 0) \<in> untried (playerAttackGrid ?g)"
    and g4: "getCellState (arduinoGrid ?g) 0 0 = Inr CELL_SHIP"
    using cell00_untried_empty cell00_ship by (simp_all add: initialGame_def)
  have h1: "aiInv ?h" by (rule aiInv_initial_with_ship)
  have h2: "(0, 0) \<in> untried (arduinoAttackGrid ?h)"
    and h3: "getCellState (playerGrid ?h) 0 0 = Inr CELL_SHIP"
    using cell00_untried_empty cell00_ship by (simp_all add: initialGame_def)
  from C2_attack_marks_one_cell[of ?g 0 0] g1 g2 g3 gc
  have "\<exists>g' r. playerFire ?g = Inr (g', r)
           \<and> markedBoth (playerAttackGrid ?g) (playerAttackGrid g') (arduinoGrid ?g) (arduinoGrid g')
                0 0 (if getCellState (arduinoGrid ?g) 0 0 = Inr CELL_SHIP
                 then CELL_HIT else CELL_MISS)"
    by auto
  then have p: "\<exists>g' r. playerFire ?g = Inr (g', r)
         \<and> getCellState (playerAttackGrid g') 0 0 = Inr CELL_HIT
         \<and> getCellState (arduinoGrid g') 0 0 = Inr CELL_HIT"
    unfolding g4 markedBoth_def by auto
  from C2_attack_marks_one_cell[of ?h 0 0] h1 h2
  have "\<exists>g'. arduinoResolveAndCheck ?h 0 0 = Inr g'
           \<and> markedBoth (arduinoAttackGrid ?h) (arduinoAttackGrid g') (playerGrid ?h) (playerGrid g')
                0 0 (if getCellState (playerGrid ?h) 0 0 = Inr CELL_SHIP then CELL_HIT else CELL_MISS)"
    by auto
  then have q: "\<exists>g'. arduinoResolveAndCheck ?h 0 0 = Inr g'
         \<and> getCellState (arduinoAttackGrid g') 0 0 = Inr CELL_HIT
         \<and> getCellState (playerGrid g') 0 0 = Inr CELL_HIT"
    unfolding h3 markedBoth_def by auto
  show ?thesis using g1 g2 g3 p h1 h2 q by blast
qed

lemma updateCursorPosition_keeps [simp]:
  "playerGrid (updateCursorPosition p g) = playerGrid g"
  "arduinoGrid (updateCursorPosition p g) = arduinoGrid g"
  "playerAttackGrid (updateCursorPosition p g) = playerAttackGrid g"
  "arduinoAttackGrid (updateCursorPosition p g) = arduinoAttackGrid g"
  "gameState (updateCursorPosition p g) = gameState g"
  by (simp_all add: updateCursorPosition_def Let_def)

lemma redButtonPressed_keeps [simp]:
  "playerGrid (fst (redButtonPressed p g)) = playerGrid g"
  "arduinoGrid (fst (redButtonPressed p g)) = arduinoGrid g"
  "playerAttackGrid (fst (redButtonPressed p g)) = playerAttackGrid g"
  "arduinoAttackGrid (fst (redButtonPressed p g)) = arduinoAttackGrid g"
  "gameState (fst (redButtonPressed p g)) = gameState g"
  "cursorX (fst (redButtonPressed p g)) = cursorX g"
  "cursorY (fst (redButtonPressed p g)) = cursorY g"
  by (simp_all add: redButtonPressed_def Let_def)

text \<open>One pass of \<^verbatim>\<open>playerAttack\<close> aimed at a cell already tried changes no grid.\<close>

lemma playerAttack_rejected:
  assumes "getCellState (playerAttackGrid g) (cursorX (updateCursorPosition p g))
             (cursorY (updateCursorPosition p g)) = Inr c" "c \<noteq> CELL_EMPTY"
  shows "\<exists>g'. playerAttack p g = Inr g'
           \<and> playerGrid g' = playerGrid g \<and> arduinoGrid g' = arduinoGrid g
           \<and> playerAttackGrid g' = playerAttackGrid g
           \<and> arduinoAttackGrid g' = arduinoAttackGrid g
           \<and> gameState g' = gameState g"
proof -
  define g1 where "g1 = updateCursorPosition p g"
  obtain g2 pressed where rb: "redButtonPressed p g1 = (g2, pressed)"
    by (cases "redButtonPressed p g1")
  have g2: "g2 = fst (redButtonPressed p g1)" using rb by simp
  have "getCellState (playerAttackGrid g2) (cursorX g2) (cursorY g2) = Inr c"
    using assms(1) unfolding g2 g1_def by simp
  then have f: "playerFire g2 = Inr (g2, False)"
    using assms(2) by (rule playerFire_tried)
  have "playerAttack p g = Inr (g2\<lparr>lastRedButtonState := redPin p\<rparr>)"
    using rb f unfolding playerAttack_def g1_def[symmetric] by (simp add: Let_def)
  then show ?thesis unfolding g2 g1_def by simp
qed

text \<open>
  C3. An attack of the player at a cell where the player's attack grid already holds a
  result is rejected and changes nothing: the block run on the button press returns the
  state it was given, and the whole pass of \<^verbatim>\<open>playerAttack\<close> leaves the four grids and
  the phase as they were. Hence two attacks at the same cell: the first, at an untried
  cell, records \<^verbatim>\<open>CELL_HIT\<close> or \<^verbatim>\<open>CELL_MISS\<close> there; the second is rejected and returns
  the state unchanged.
\<close>

theorem C3_repeated_attack_rejected:
  "(\<forall>c. getCellState (playerAttackGrid g) (cursorX g) (cursorY g) = Inr c \<and> c \<noteq> CELL_EMPTY
        \<longrightarrow> playerFire g = Inr (g, False))
   \<and> (\<forall>c. getCellState (playerAttackGrid g) (cursorX (updateCursorPosition p g))
             (cursorY (updateCursorPosition p g)) = Inr c \<and> c \<noteq> CELL_EMPTY
        \<longrightarrow> (\<exists>g'. playerAttack p g = Inr g'
               \<and> playerGrid g' = playerGrid g \<and> arduinoGrid g' = arduinoGrid g
               \<and> playerAttackGrid g' = playerAttackGrid g
               \<and> arduinoAttackGrid g' = arduinoAttackGrid g
               \<and> gameState g' = gameState g))
   \<and> (length (playerAttackGrid g) = totalGridBytes \<and> length (arduinoGrid g) = totalGridBytes
        \<and> (cursorX g, cursorY g) \<in> untried (playerAttackGrid g)
      \<longrightarrow> (\<exists>g1 r m. playerFire g = Inr (g1, r)
             \<and> m \<in> {CELL_HIT, CELL_MISS}
             \<and> cursorX g1 = cursorX g \<and> cursorY g1 = cursorY g
             \<and> getCellState (playerAttackGrid g1) (cursorX g) (cursorY g) = Inr m
             \<and> playerFire g1 = Inr (g1, False)))"
proof (intro conjI allI impI)
  fix c
  assume "getCellState (playerAttackGrid g) (cursorX g) (cursorY g) = Inr c \<and> c \<noteq> CELL_EMPTY"
  then show "playerFire g = Inr (g, False)" using playerFire_tried by blast
next
  fix c
  assume "getCellState (playerAttackGrid g) (cursorX (updateCursorPosition p g))
             (cursorY (updateCursorPosition p g)) = Inr c \<and> c \<noteq> CELL_EMPTY"
  then show "\<exists>g'. playerAttack p g = Inr g'
               \<and> playerGrid g' = playerGrid g \<and> arduinoGrid g' = arduinoGrid g
               \<and> playerAttackGrid g' = playerAttackGrid g
               \<and> arduinoAttackGrid g' = arduinoAttackGrid g
               \<and> gameState g' = gameState g"
    using playerAttack_rejected by blast
next
  assume a: "length (playerAttackGrid g) = totalGridBytes \<and> length (arduinoGrid g) = totalGridBytes
        \<and> (cursorX g, cursorY g) \<in> untried (playerAttackGrid g)"
  then have a1: "length (playerAttackGrid g) = totalGridBytes"
    and a2: "length (arduinoGrid g) = totalGridBytes"
    and a3: "(cursorX g, cursorY g) \<in> untried (playerAttackGrid g)" by simp_all
  define m where "m = (if getCellState (arduinoGrid g) (cursorX g) (cursorY g) = Inr CELL_SHIP
                   then CELL_HIT else CELL_MISS)"
  from playerFire_marks[OF a1 a2 a3] obtain g1 and n :: u8 where
    f: "playerFire g = Inr (g1, n = 0)"
    and mb: "markedBoth (playerAttackGrid g) (playerAttackGrid g1) (arduinoGrid g) (arduinoGrid g1)
                (cursorX g) (cursorY g) m"
    and cx: "cursorX g1 = cursorX g" and cy: "cursorY g1 = cursorY g"
    unfolding m_def by blast
  have mm: "m \<in> {CELL_HIT, CELL_MISS}" by (simp add: m_def)
  then have ne: "m \<noteq> CELL_EMPTY"
    by (auto simp add: CELL_HIT_def CELL_MISS_def CELL_EMPTY_def)
  have rd: "getCellState (playerAttackGrid g1) (cursorX g) (cursorY g) = Inr m"
    using mb by (simp add: markedBoth_def)
  then have "getCellState (playerAttackGrid g1) (cursorX g1) (cursorY g1) = Inr m"
    using cx cy by simp
  then have again: "playerFire g1 = Inr (g1, False)"
    using ne by (rule playerFire_tried)
  show "\<exists>g1 r m. playerFire g = Inr (g1, r)
             \<and> m \<in> {CELL_HIT, CELL_MISS}
             \<and> cursorX g1 = cursorX g \<and> cursorY g1 = cursorY g
             \<and> getCellState (playerAttackGrid g1) (cursorX g) (cursorY g) = Inr m
             \<and> playerFire g1 = Inr (g1, False)"
    using f mm cx cy rd again by blast
qed

lemma arduinoWinCheck_state:
  assumes "arduinoWinCheck g1 = Inr g'"
  shows "\<exists>n. countRemainingShips (playerGrid g') = Inr n
           \<and> gameState g' = (if n = 0 then GAME_OVER else PLAYER_TURN)"
proof -
  from assms obtain n :: u8 where n: "countRemainingShips (playerGrid g1) = Inr n"
    and g': "(if n = 0 then Inr (g1\<lparr>gameState := GAME_OVER\<rparr>)
              else Inr (g1\<lparr>gameState := PLAYER_TURN\<rparr>)) = (Inr g' :: fault + game)"
    unfolding arduinoWinCheck_def thenF_Inr_iff by blast
  from g' have "g' = g1\<lparr>gameState := (if n = 0 then GAME_OVER else PLAYER_TURN)\<rparr>"
    by (auto split: if_splits)
  then show ?thesis using n by simp
qed

lemma arduinoResolveAndCheck_state:
  assumes "arduinoResolveAndCheck g x y = Inr g'"
  shows "\<exists>n. countRemainingShips (playerGrid g') = Inr n
           \<and> gameState g' = (if n = 0 then GAME_OVER else PLAYER_TURN)"
proof -
  from assms obtain g1 where "arduinoWinCheck g1 = Inr g'"
    unfolding arduinoResolveAndCheck_def thenF_Inr_iff by blast
  then show ?thesis by (rule arduinoWinCheck_state)
qed

lemma thenF_pair:
  "thenF m (\<lambda>a. Inr (a, r)) = Inr (b, r') \<longleftrightarrow> m = Inr b \<and> r = r'"
  by (cases m) simp_all

lemma arduinoAttack_hunt_result:
  assumes "arduinoAttackMode g = HUNT_MODE" "arduinoAttack g rs = Some (Inr (g', rs'))"
  shows "\<exists>x y. arduinoResolveAndCheck g x y = Inr g'"
proof -
  from assms have b: "Option.bind (huntSample (arduinoAttackGrid g) rs)
          (\<lambda>r. Some (thenF r
                        (\<lambda>(x, y, rs').
                           thenF (arduinoResolveAndCheck g x y) (\<lambda>g1. Inr (g1, rs')))))
        = Some (Inr (g', rs'))"
    by (subst (asm) arduinoAttack.simps) simp
  then obtain r where r: "thenF r (\<lambda>(x, y, rs').
                           thenF (arduinoResolveAndCheck g x y) (\<lambda>g1. Inr (g1, rs')))
        = Inr (g', rs')"
    by (auto simp add: bind_eq_Some_conv)
  then obtain t where "r = Inr t"
    and "(case t of (x, y, rs1) \<Rightarrow>
            thenF (arduinoResolveAndCheck g x y) (\<lambda>g1. Inr (g1, rs1))) = Inr (g', rs')"
    by (cases r) simp_all
  then show ?thesis
    by (cases t) (auto simp add: thenF_pair)
qed

lemma arduinoAttack_result:
  assumes "arduinoAttack g rs = Some (Inr (g', rs'))"
  shows "\<exists>g0 x y. arduinoResolveAndCheck g0 x y = Inr g'"
proof (cases "arduinoAttackMode g")
  case HUNT_MODE
  from arduinoAttack_hunt_result[OF this assms] show ?thesis by blast
next
  case TARGET_MODE
  note u = assms[unfolded arduinoAttack_target_unfold[OF TARGET_MODE]]
  show ?thesis
  proof (cases "targetScan (arduinoAttackGrid g) (targetList (targetsReady g))
             (targetIndex (targetsReady g)) 0 0")
    case (Inl e)
    then show ?thesis using u by simp
  next
    case (Inr t)
    obtain v x y ti where t: "t = (v, x, y, ti)" by (cases t)
    show ?thesis
    proof (cases v)
      case True
      then have "thenF (arduinoResolveAndCheck ((targetsReady g)\<lparr>targetIndex := ti\<rparr>) x y)
                    (\<lambda>g2. Inr (g2, rs)) = Inr (g', rs')"
        using u Inr t by simp
      then have "arduinoResolveAndCheck ((targetsReady g)\<lparr>targetIndex := ti\<rparr>) x y = Inr g'"
        by (simp add: thenF_pair)
      then show ?thesis by blast
    next
      case False
      then have r: "arduinoAttack ((targetsReady g)\<lparr>targetIndex := ti, arduinoAttackMode := HUNT_MODE\<rparr>) rs
          = Some (Inr (g', rs'))"
        using u Inr t by simp
      have "arduinoAttackMode ((targetsReady g)\<lparr>targetIndex := ti, arduinoAttackMode := HUNT_MODE\<rparr>)
          = HUNT_MODE" by simp
      from arduinoAttack_hunt_result[OF this r] show ?thesis by blast
    qed
  qed
qed

lemma playerAttack_fires:
  assumes "redButtonPressed p (updateCursorPosition p g) = (g2, True)"
    and "playerFire g2 = Inr (g3, r)"
  shows "\<exists>g'. playerAttack p g = Inr g' \<and> gameState g' = gameState g3
           \<and> playerGrid g' = playerGrid g3 \<and> arduinoGrid g' = arduinoGrid g3
           \<and> playerAttackGrid g' = playerAttackGrid g3
           \<and> arduinoAttackGrid g' = arduinoAttackGrid g3"
  using assms unfolding playerAttack_def by (simp add: Let_def)

text \<open>
  C8. The win check follows every resolved attack and reads the defender's ownership
  grid. After the player's attack at an untried cell the phase is \<^verbatim>\<open>GAME_OVER\<close> when
  \<^verbatim>\<open>countRemainingShips\<close> of the Arduino's grid is zero and \<^verbatim>\<open>ARDUINO_TURN\<close> otherwise,
  for the block run on the button press and for the whole pass of \<^verbatim>\<open>playerAttack\<close> in
  which the press is detected. Whenever \<^verbatim>\<open>arduinoAttack\<close> returns, the phase is
  \<^verbatim>\<open>GAME_OVER\<close> when \<^verbatim>\<open>countRemainingShips\<close> of the player's grid is zero and
  \<^verbatim>\<open>PLAYER_TURN\<close> otherwise.
\<close>

theorem C8_win_check_after_attack:
  "(length (playerAttackGrid g) = totalGridBytes \<and> length (arduinoGrid g) = totalGridBytes
      \<and> (cursorX g, cursorY g) \<in> untried (playerAttackGrid g)
    \<longrightarrow> (\<exists>g' r n. playerFire g = Inr (g', r)
           \<and> countRemainingShips (arduinoGrid g') = Inr n
           \<and> gameState g' = (if n = 0 then GAME_OVER else ARDUINO_TURN)))
   \<and> (\<forall>g2. redButtonPressed p (updateCursorPosition p g) = (g2, True)
        \<and> length (playerAttackGrid g) = totalGridBytes \<and> length (arduinoGrid g) = totalGridBytes
        \<and> (cursorX g2, cursorY g2) \<in> untried (playerAttackGrid g)
      \<longrightarrow> (\<exists>g' n. playerAttack p g = Inr g'
           \<and> countRemainingShips (arduinoGrid g') = Inr n
           \<and> gameState g' = (if n = 0 then GAME_OVER else ARDUINO_TURN)))
   \<and> (\<forall>g' rs'. arduinoAttack g rs = Some (Inr (g', rs'))
      \<longrightarrow> (\<exists>n. countRemainingShips (playerGrid g') = Inr n
           \<and> gameState g' = (if n = 0 then GAME_OVER else PLAYER_TURN)))"
proof (intro conjI allI impI)
  assume a: "length (playerAttackGrid g) = totalGridBytes \<and> length (arduinoGrid g) = totalGridBytes
      \<and> (cursorX g, cursorY g) \<in> untried (playerAttackGrid g)"
  then have a1: "length (playerAttackGrid g) = totalGridBytes"
    and a2: "length (arduinoGrid g) = totalGridBytes"
    and a3: "(cursorX g, cursorY g) \<in> untried (playerAttackGrid g)" by simp_all
  from playerFire_marks[OF a1 a2 a3]
  show "\<exists>g' r n. playerFire g = Inr (g', r)
           \<and> countRemainingShips (arduinoGrid g') = Inr n
           \<and> gameState g' = (if n = 0 then GAME_OVER else ARDUINO_TURN)"
    by blast
next
  fix g2
  assume b: "redButtonPressed p (updateCursorPosition p g) = (g2, True)
        \<and> length (playerAttackGrid g) = totalGridBytes \<and> length (arduinoGrid g) = totalGridBytes
        \<and> (cursorX g2, cursorY g2) \<in> untried (playerAttackGrid g)"
  then have rb: "redButtonPressed p (updateCursorPosition p g) = (g2, True)" by simp
  then have g2: "g2 = fst (redButtonPressed p (updateCursorPosition p g))" by simp
  have b1: "length (playerAttackGrid g2) = totalGridBytes"
    and b2: "length (arduinoGrid g2) = totalGridBytes"
    and b3: "(cursorX g2, cursorY g2) \<in> untried (playerAttackGrid g2)"
    using b unfolding g2 by simp_all
  from playerFire_marks[OF b1 b2 b3] obtain g3 and n :: u8 where
    f: "playerFire g2 = Inr (g3, n = 0)"
    and c: "countRemainingShips (arduinoGrid g3) = Inr n"
    and s: "gameState g3 = (if n = 0 then GAME_OVER else ARDUINO_TURN)"
    by blast
  from playerAttack_fires[OF rb f] c s
  show "\<exists>g' n. playerAttack p g = Inr g'
           \<and> countRemainingShips (arduinoGrid g') = Inr n
           \<and> gameState g' = (if n = 0 then GAME_OVER else ARDUINO_TURN)"
    by auto
next
  fix g' rs'
  assume "arduinoAttack g rs = Some (Inr (g', rs'))"
  from arduinoAttack_result[OF this] obtain g0 x y
    where "arduinoResolveAndCheck g0 x y = Inr g'" by blast
  then show "\<exists>n. countRemainingShips (playerGrid g') = Inr n
           \<and> gameState g' = (if n = 0 then GAME_OVER else PLAYER_TURN)"
    by (rule arduinoResolveAndCheck_state)
qed

text \<open>
  A pass in which the red button is seen pressed: the pin has read \<^verbatim>\<open>LOW\<close> since the
  pass before, the debounce delay has gone by and the joystick is centred.
\<close>

lemma redButtonPressed_example:
  assumes "lastRedButtonState g = LOW" "redButtonState g = HIGH" "lastRedDebounceTime g = 0"
    and "lastJoystickMoveTime g = 0"
  shows "redButtonPressed
           \<lparr>redPin = LOW, bluePin = HIGH, joystickButtonPin = HIGH,
            joystickX = 512, joystickY = 512, millis = 1000\<rparr>
           (updateCursorPosition
              \<lparr>redPin = LOW, bluePin = HIGH, joystickButtonPin = HIGH,
               joystickX = 512, joystickY = 512, millis = 1000\<rparr> g)
         = (g\<lparr>redButtonState := LOW\<rparr>, True)"
  using assms
  by (simp add: redButtonPressed_def updateCursorPosition_def Let_def LOW_def HIGH_def
      JOYSTICK_MOVE_DELAY_def JOYSTICK_CENTER_def JOYSTICK_THRESHOLD_def redDebounceDelay_def)

lemma updateCursorPosition_centred:
  "updateCursorPosition
     \<lparr>redPin = r, bluePin = b, joystickButtonPin = j,
      joystickX = 512, joystickY = 512, millis = t\<rparr> g = g"
  by (simp add: updateCursorPosition_def Let_def JOYSTICK_CENTER_def JOYSTICK_THRESHOLD_def)

theorem C3_repeated_attack_rejected_witness:
  "getCellState (playerAttackGrid (initialGame\<lparr>playerAttackGrid := (replicate totalGridBytes 0)[0 := 3],
                                               lastRedButtonState := LOW, gameState := PLAYER_TURN\<rparr>))
      0 0 = Inr CELL_MISS
   \<and> CELL_MISS \<noteq> CELL_EMPTY
   \<and> playerFire (initialGame\<lparr>playerAttackGrid := (replicate totalGridBytes 0)[0 := 3],
                              lastRedButtonState := LOW, gameState := PLAYER_TURN\<rparr>)
       = Inr (initialGame\<lparr>playerAttackGrid := (replicate totalGridBytes 0)[0 := 3],
                           lastRedButtonState := LOW, gameState := PLAYER_TURN\<rparr>, False)
   \<and> snd (redButtonPressed \<lparr>redPin = LOW, bluePin = HIGH, joystickButtonPin = HIGH,
                             joystickX = 512, joystickY = 512, millis = 1000\<rparr>
            (updateCursorPosition \<lparr>redPin = LOW, bluePin = HIGH, joystickButtonPin = HIGH,
                                   joystickX = 512, joystickY = 512, millis = 1000\<rparr>
               (initialGame\<lparr>playerAttackGrid := (replicate totalGridBytes 0)[0 := 3],
                            lastRedButtonState := LOW, gameState := PLAYER_TURN\<rparr>)))
   \<and> (\<exists>g'. playerAttack \<lparr>redPin = LOW, bluePin = HIGH, joystickButtonPin = HIGH,
                          joystickX = 512, joystickY = 512, millis = 1000\<rparr>
               (initialGame\<lparr>playerAttackGrid := (replicate totalGridBytes 0)[0 := 3],
                            lastRedButtonState := LOW, gameState := PLAYER_TURN\<rparr>) = Inr g'
          \<and> playerAttackGrid g' = (replicate totalGridBytes 0)[0 := 3]
          \<and> gameState g' = PLAYER_TURN)
   \<and> length (playerAttackGrid initialGame) = totalGridBytes
   \<and> length (arduinoGrid initialGame) = totalGridBytes
   \<and> (cursorX initialGame, cursorY initialGame) \<in> untried (playerAttackGrid initialGame)
   \<and> (\<exists>g1 r. playerFire initialGame = Inr (g1, r) \<and> playerFire g1 = Inr (g1, False))"
proof -
  let ?t = "initialGame\<lparr>playerAttackGrid := (replicate totalGridBytes 0)[0 := 3],
                         lastRedButtonState := LOW, gameState := PLAYER_TURN\<rparr>"
  let ?p = "\<lparr>redPin = LOW, bluePin = HIGH, joystickButtonPin = HIGH,
            joystickX = 512, joystickY = 512, millis = 1000\<rparr>"
  have c: "cursorX ?t = 0" "cursorY ?t = 0" by (simp_all add: initialGame_def)
  have t1: "getCellState (playerAttackGrid ?t) 0 0 = Inr CELL_MISS"
    using cell00_miss by simp
  have t2: "CELL_MISS \<noteq> CELL_EMPTY" by (simp add: CELL_MISS_def CELL_EMPTY_def)
  have t3: "getCellState (playerAttackGrid ?t) (cursorX (updateCursorPosition ?p ?t))
             (cursorY (updateCursorPosition ?p ?t)) = Inr CELL_MISS"
    unfolding updateCursorPosition_centred c by (rule t1)
  have "redButtonPressed ?p (updateCursorPosition ?p ?t) = (?t\<lparr>redButtonState := LOW\<rparr>, True)"
    by (rule redButtonPressed_example) (simp_all add: initialGame_def)
  then have pr: "snd (redButtonPressed ?p (updateCursorPosition ?p ?t))" by simp
  have i1: "length (playerAttackGrid initialGame) = totalGridBytes"
    and i2: "length (arduinoGrid initialGame) = totalGridBytes"
    and i3: "(cursorX initialGame, cursorY initialGame) \<in> untried (playerAttackGrid initialGame)"
    using cell00_untried_empty by (simp_all add: initialGame_def)
  note th = C3_repeated_attack_rejected[of ?t ?p]
  from th t1 t2 c have a: "playerFire ?t = Inr (?t, False)" by metis
  from th t3 t2 have "\<exists>g'. playerAttack ?p ?t = Inr g' \<and> playerAttackGrid g' = playerAttackGrid ?t
      \<and> gameState g' = gameState ?t"
    by blast
  then have b: "\<exists>g'. playerAttack ?p ?t = Inr g'
      \<and> playerAttackGrid g' = (replicate totalGridBytes 0)[0 := 3]
      \<and> gameState g' = PLAYER_TURN" by (simp add: initialGame_def)
  from C3_repeated_attack_rejected[of initialGame ?p] i1 i2 i3
  have d: "\<exists>g1 r. playerFire initialGame = Inr (g1, r) \<and> playerFire g1 = Inr (g1, False)"
    by blast
  show ?thesis using t1 t2 a pr b i1 i2 i3 d by blast
qed

theorem C8_win_check_after_attack_witness:
  "length (playerAttackGrid (initialGame\<lparr>lastRedButtonState := LOW\<rparr>)) = totalGridBytes
   \<and> length (arduinoGrid (initialGame\<lparr>lastRedButtonState := LOW\<rparr>)) = totalGridBytes
   \<and> (cursorX (initialGame\<lparr>lastRedButtonState := LOW\<rparr>),
       cursorY (initialGame\<lparr>lastRedButtonState := LOW\<rparr>))
        \<in> untried (playerAttackGrid (initialGame\<lparr>lastRedButtonState := LOW\<rparr>))
   \<and> (\<exists>g' r. playerFire (initialGame\<lparr>lastRedButtonState := LOW\<rparr>) = Inr (g', r)
         \<and> (gameState g' = GAME_OVER \<or> gameState g' = ARDUINO_TURN))
   \<and> redButtonPressed \<lparr>redPin = LOW, bluePin = HIGH, joystickButtonPin = HIGH,
                        joystickX = 512, joystickY = 512, millis = 1000\<rparr>
         (updateCursorPosition \<lparr>redPin = LOW, bluePin = HIGH, joystickButtonPin = HIGH,
                        joystickX = 512, joystickY = 512, millis = 1000\<rparr>
            (initialGame\<lparr>lastRedButtonState := LOW\<rparr>))
       = (initialGame\<lparr>lastRedButtonState := LOW, redButtonState := LOW\<rparr>, True)
   \<and> (\<exists>g'. playerAttack \<lparr>redPin = LOW, bluePin = HIGH, joystickButtonPin = HIGH,
                        joystickX = 512, joystickY = 512, millis = 1000\<rparr>
               (initialGame\<lparr>lastRedButtonState := LOW\<rparr>) = Inr g'
         \<and> (gameState g' = GAME_OVER \<or> gameState g' = ARDUINO_TURN))
   \<and> (\<exists>g' rs'. arduinoAttack initialGame (sconst 0) = Some (Inr (g', rs'))
         \<and> (gameState g' = GAME_OVER \<or> gameState g' = PLAYER_TURN))"
proof -
  let ?g = "initialGame\<lparr>lastRedButtonState := LOW\<rparr>"
  let ?p = "\<lparr>redPin = LOW, bluePin = HIGH, joystickButtonPin = HIGH,
            joystickX = 512, joystickY = 512, millis = 1000\<rparr>"
  have i1: "length (playerAttackGrid ?g) = totalGridBytes"
    and i2: "length (arduinoGrid ?g) = totalGridBytes"
    and i3: "(cursorX ?g, cursorY ?g) \<in> untried (playerAttackGrid ?g)"
    using cell00_untried_empty by (simp_all add: initialGame_def)
  have rb: "redButtonPressed ?p (updateCursorPosition ?p ?g)
      = (initialGame\<lparr>lastRedButtonState := LOW, redButtonState := LOW\<rparr>, True)"
    by (rule redButtonPressed_example) (simp_all add: initialGame_def)
  have i4: "(cursorX (initialGame\<lparr>lastRedButtonState := LOW, redButtonState := LOW\<rparr>),
             cursorY (initialGame\<lparr>lastRedButtonState := LOW, redButtonState := LOW\<rparr>))
        \<in> untried (playerAttackGrid ?g)"
    using i3 by simp
  note th = C8_win_check_after_attack[of ?g ?p]
  from th i1 i2 i3
  have "\<exists>g' r n. playerFire ?g = Inr (g', r)
           \<and> gameState g' = (if n = (0::u8) then GAME_OVER else ARDUINO_TURN)" by blast
  then have a: "\<exists>g' r. playerFire ?g = Inr (g', r)
         \<and> (gameState g' = GAME_OVER \<or> gameState g' = ARDUINO_TURN)"
    by (metis (full_types))
  from th rb i1 i2 i4
  have "\<exists>g' n. playerAttack ?p ?g = Inr g'
           \<and> gameState g' = (if n = (0::u8) then GAME_OVER else ARDUINO_TURN)" by blast
  then have b: "\<exists>g'. playerAttack ?p ?g = Inr g'
         \<and> (gameState g' = GAME_OVER \<or> gameState g' = ARDUINO_TURN)"
    by (metis (full_types))
  have inv: "aiInv initialGame"
    by (simp add: aiInv_def initialGame_def inBounds_def GRID_SIZE_def)
  have mode: "arduinoAttackMode initialGame = HUNT_MODE" by (simp add: initialGame_def)
  have dr: "huntDraw (sdrop (2 * 0) (sconst 0)) \<in> untried (arduinoAttackGrid initialGame)"
    using cell00_untried_empty by (simp add: huntDraw_sconst0 initialGame_def)
  from arduinoAttack_hunt[OF inv mode dr] obtain g' rs'
    where r: "arduinoAttack initialGame (sconst 0) = Some (Inr (g', rs'))" by blast
  from C8_win_check_after_attack[of initialGame ?p "sconst 0"] r
  have "\<exists>n. gameState g' = (if n = (0::u8) then GAME_OVER else PLAYER_TURN)" by blast
  then have "gameState g' = GAME_OVER \<or> gameState g' = PLAYER_TURN"
    by (metis (full_types))
  then have c: "\<exists>g' rs'. arduinoAttack initialGame (sconst 0) = Some (Inr (g', rs'))
         \<and> (gameState g' = GAME_OVER \<or> gameState g' = PLAYER_TURN)"
    using r by blast
  show ?thesis using i1 i2 i3 a rb b c by blast
qed


section \<open>The target list after a hit at the border\<close>

text \<open>Target mode when the scan has found an untried candidate.\<close>

lemma arduinoAttack_target_step:
  assumes "aiInv g" "arduinoAttackMode g = TARGET_MODE"
    and "targetScan (arduinoAttackGrid g) (targetList (targetsReady g))
           (targetIndex (targetsReady g)) 0 0 = Inr (True, x, y, ti)"
    and "inBounds x y"
  shows "\<exists>g'. arduinoAttack g rs = Some (Inr (g', rs))
           \<and> markedBoth (arduinoAttackGrid g) (arduinoAttackGrid g') (playerGrid g) (playerGrid g') x y
                (if getCellState (playerGrid g) x y = Inr CELL_SHIP then CELL_HIT else CELL_MISS)
           \<and> targetList g' = targetList (targetsReady g)
           \<and> (if getCellState (playerGrid g) x y = Inr CELL_SHIP
               then lastHitX g' = x \<and> lastHitY g' = y \<and> arduinoAttackMode g' = TARGET_MODE
                    \<and> targetIndex g' = 0 \<and> \<not> targetListInitialized g'
               else lastHitX g' = lastHitX g \<and> lastHitY g' = lastHitY g
                    \<and> arduinoAttackMode g' = TARGET_MODE
                    \<and> targetIndex g' = ti
                    \<and> targetListInitialized g')"
proof -
  let ?g0 = "(targetsReady g)\<lparr>targetIndex := ti\<rparr>"
  have l1: "length (playerGrid ?g0) = totalGridBytes"
    and l2: "length (arduinoAttackGrid ?g0) = totalGridBytes"
    using assms(1) by (simp_all add: aiInv_def)
  have ini: "targetListInitialized (targetsReady g)"
    by (simp add: targetsReady_def)
  from arduinoResolveAndCheck_ok[OF l1 l2 assms(4)] obtain g' where
    r: "arduinoResolveAndCheck ?g0 x y = Inr g'"
    and mb: "markedBoth (arduinoAttackGrid ?g0) (arduinoAttackGrid g') (playerGrid ?g0) (playerGrid g') x y
               (if getCellState (playerGrid ?g0) x y = Inr CELL_SHIP then CELL_HIT else CELL_MISS)"
    and tl: "targetList g' = targetList ?g0"
    and f: "if (if getCellState (playerGrid ?g0) x y = Inr CELL_SHIP then CELL_HIT else CELL_MISS)
                = CELL_HIT
            then lastHitX g' = x \<and> lastHitY g' = y \<and> arduinoAttackMode g' = TARGET_MODE
                    \<and> targetIndex g' = 0 \<and> \<not> targetListInitialized g'
            else lastHitX g' = lastHitX ?g0 \<and> lastHitY g' = lastHitY ?g0
                    \<and> arduinoAttackMode g' = arduinoAttackMode ?g0
                    \<and> targetIndex g' = targetIndex ?g0
                    \<and> targetListInitialized g' = targetListInitialized ?g0"
    by blast
  have a: "arduinoAttack g rs = Some (Inr (g', rs))"
    unfolding arduinoAttack_target_unfold[OF assms(2)] assms(3) using r by simp
  have hm: "CELL_MISS \<noteq> CELL_HIT" by (simp add: CELL_MISS_def CELL_HIT_def)
  show ?thesis
    using a mb tl f ini assms(2) hm
    by (rule_tac x = g' in exI) (simp split: if_splits)
qed

lemma list4_update:
  "length t = 4 \<Longrightarrow> t[0 := a, Suc 0 := b, 2 := c, 3 := d] = [a, b, c, d]"
  by (cases t; cases "tl t"; cases "tl (tl t)"; cases "tl (tl (tl t))") auto

text \<open>
  After a hit away from the border the list holds the four neighbours: left, right, up,
  down.
\<close>

lemma buildTargetList_interior:
  assumes "0 < lastHitX g" "unat (lastHitX g) < GRID_SIZE - 1"
    and "0 < lastHitY g" "unat (lastHitY g) < GRID_SIZE - 1"
    and "length (targetList g) = 4"
  shows "targetList (buildTargetList g) =
           [(lastHitX g - 1, lastHitY g), (lastHitX g + 1, lastHitY g),
            (lastHitX g, lastHitY g - 1), (lastHitX g, lastHitY g + 1)]"
  using assms list4_update[of "targetList g"]
  by (simp add: buildTargetList_targets Let_def numeral_2_eq_2 numeral_3_eq_3)

lemma targets_after_hit_3_2:
  "targetList (targetsReady (initialGame\<lparr>lastHitX := 3, lastHitY := 2\<rparr>))
     = [(2, 2), (4, 2), (3, 1), (3, 3)]"
proof -
  let ?g = "initialGame\<lparr>lastHitX := 3, lastHitY := 2\<rparr>"
  have "\<not> targetListInitialized ?g" "lastHitX ?g = 3" "lastHitY ?g = 2"
    "length (targetList ?g) = 4"
    by (simp_all add: initialGame_def)
  then show ?thesis
    using buildTargetList_interior[of ?g]
    by (simp add: targetsReady_def GRID_SIZE_def)
qed

lemma cornerHitState_fields:
  "arduinoAttackMode cornerHitState = TARGET_MODE"
  "\<not> targetListInitialized cornerHitState"
  "lastHitX cornerHitState = 0" "lastHitY cornerHitState = 0"
  "targetIndex cornerHitState = 0"
  "targetList cornerHitState = [(0, 0), (2, 0), (1, 1), (0, 0)]"
  "arduinoAttackGrid cornerHitState = (replicate totalGridBytes 0)[0 := 10]"
  "playerGrid cornerHitState
     = (replicate totalGridBytes 0)[0 := 10, 5 := 85, 6 := 1, 10 := 85, 15 := 21, 20 := 21]"
  by (simp_all add: cornerHitState_def initialGame_def)

lemma cornerHitState_aiInv: "aiInv cornerHitState"
  by (simp add: aiInv_def cornerHitState_fields inBounds_def GRID_SIZE_def)

lemma cornerHitState_targets:
  "targetList (targetsReady cornerHitState) = [(1, 0), (0, 1), (1, 1), (0, 0)]"
  "targetIndex (targetsReady cornerHitState) = 0"
  by (simp_all add: targetsReady_def buildTargetList_targets cornerHitState_fields GRID_SIZE_def
      Let_def)

lemma cornerHitState_cells:
  "getCellState (arduinoAttackGrid cornerHitState) 1 0 = Inr CELL_HIT"
  "getCellState (arduinoAttackGrid cornerHitState) 0 1 = Inr CELL_EMPTY"
  "getCellState (arduinoAttackGrid cornerHitState) 1 1 = Inr CELL_EMPTY"
  "getCellState (playerGrid cornerHitState) 0 1 = Inr CELL_EMPTY"
  "getCellState (playerGrid cornerHitState) 1 1 = Inr CELL_EMPTY"
  by (simp_all add: cornerHitState_fields getCellState_single cellByteIndex_eq cellBitOffset_eq
      totalGridBytes_eq CELL_HIT_def CELL_EMPTY_def drop_bit_eq_div)

lemma targetScan_skip:
  assumes "ti < 4" "unat ti < length targets"
    and "getCellState grid (fst (targets ! unat ti)) (snd (targets ! unat ti)) = Inr c"
    and "c \<noteq> CELL_EMPTY"
  shows "targetScan grid targets ti x y
         = targetScan grid targets (ti + 1) (fst (targets ! unat ti)) (snd (targets ! unat ti))"
  using assms by (subst targetScan.simps) (simp add: Let_def)

lemma targetScan_take:
  assumes "ti < 4" "unat ti < length targets"
    and "getCellState grid (fst (targets ! unat ti)) (snd (targets ! unat ti)) = Inr CELL_EMPTY"
  shows "targetScan grid targets ti x y
         = Inr (True, fst (targets ! unat ti), snd (targets ! unat ti), ti + 1)"
  using assms by (subst targetScan.simps) (simp add: Let_def)

lemma cornerHitState_scan:
  "targetScan (arduinoAttackGrid cornerHitState) (targetList (targetsReady cornerHitState))
     (targetIndex (targetsReady cornerHitState)) 0 0 = Inr (True, 0, 1, 2)"
proof -
  let ?t = "[(1, 0), (0, 1), (1, 1), (0, 0)] :: (u8 \<times> u8) list"
  have "targetScan (arduinoAttackGrid cornerHitState) ?t 0 0 0
        = targetScan (arduinoAttackGrid cornerHitState) ?t (0 + 1) (fst (?t ! unat (0::u8)))
            (snd (?t ! unat (0::u8)))"
    by (rule targetScan_skip[where c = CELL_HIT])
      (simp_all add: cornerHitState_cells CELL_HIT_def CELL_EMPTY_def)
  also have "\<dots> = targetScan (arduinoAttackGrid cornerHitState) ?t 1 1 0" by simp
  also have "\<dots> = Inr (True, fst (?t ! unat (1::u8)), snd (?t ! unat (1::u8)), 1 + 1)"
    by (rule targetScan_take) (simp_all add: cornerHitState_cells)
  also have "\<dots> = Inr (True, 0, 1, 2)" by simp
  finally show ?thesis by (simp add: cornerHitState_targets)
qed

text \<open>
  C6. The state \<^const>\<open>cornerHitState\<close> is reached from the start of a game with the
  player's destroyer on (0, 0) and (1, 0): the opponent hits (1, 0) in hunt mode, builds
  the list (0, 0), (2, 0), (1, 1) around it (the fourth entry keeps its initial (0, 0)) and
  hits (0, 0). On the next turn the list is rebuilt around the corner (0, 0): only its
  first two entries are written, (1, 0) and (0, 1); the entries (1, 1) and (0, 0) are left
  over, and the loop still runs over all four. The opponent attacks (0, 1), misses, and
  on the turn after that attacks (1, 1), which is no orthogonal neighbour of the last hit
  (0, 0).
\<close>

theorem C6_stale_target_attacked:
  "targetList (targetsReady cornerHitState) = [(1, 0), (0, 1), (1, 1), (0, 0)]
   \<and> (1, 1) \<in> untried (arduinoAttackGrid cornerHitState)
   \<and> (case arduinoAttack cornerHitState (sconst 0) of
         Some (Inr (g1, rs1)) \<Rightarrow>
           lastHitX g1 = 0 \<and> lastHitY g1 = 0
           \<and> arduinoAttackMode g1 = TARGET_MODE
           \<and> getCellState (arduinoAttackGrid g1) 0 1 = Inr CELL_MISS
           \<and> (1, 1) \<in> untried (arduinoAttackGrid g1)
           \<and> (case arduinoAttack g1 rs1 of
                 Some (Inr (g2, rs2)) \<Rightarrow>
                   lastHitX g2 = 0 \<and> lastHitY g2 = 0
                   \<and> getCellState (arduinoAttackGrid g2) 1 1 = Inr CELL_MISS
               | _ \<Rightarrow> False)
       | _ \<Rightarrow> False)"
proof -
  let ?S = cornerHitState
  have ib01: "inBounds 0 1" and ib11: "inBounds 1 1"
    by (simp_all add: inBounds_def GRID_SIZE_def)
  have u11: "(1, 1) \<in> untried (arduinoAttackGrid ?S)"
    using ib11 by (simp add: untried_iff cornerHitState_cells)
  have ne: "CELL_EMPTY \<noteq> CELL_SHIP" by (simp add: CELL_EMPTY_def CELL_SHIP_def)
  have hs: "(Inr CELL_EMPTY :: fault + u8) \<noteq> Inr CELL_SHIP" using ne by simp
  note st1 = arduinoAttack_target_step[OF cornerHitState_aiInv cornerHitState_fields(1)
      cornerHitState_scan ib01, of "sconst 0", unfolded cornerHitState_cells
      cornerHitState_targets cornerHitState_fields(3,4) if_not_P[OF hs]]
  from st1 obtain g1 where a1: "arduinoAttack ?S (sconst 0) = Some (Inr (g1, sconst 0))"
    and mb1: "markedBoth (arduinoAttackGrid ?S) (arduinoAttackGrid g1) (playerGrid ?S)
                (playerGrid g1) 0 1 CELL_MISS"
    and tl1: "targetList g1 = [(1, 0), (0, 1), (1, 1), (0, 0)]"
    and f1: "lastHitX g1 = 0" "lastHitY g1 = 0" "arduinoAttackMode g1 = TARGET_MODE"
      "targetIndex g1 = 2" "targetListInitialized g1"
    by blast
  have c01: "getCellState (arduinoAttackGrid g1) 0 1 = Inr CELL_MISS"
    using mb1 by (simp add: markedBoth_def)
  have c11: "getCellState (arduinoAttackGrid g1) 1 1 = Inr CELL_EMPTY"
    and p11: "getCellState (playerGrid g1) 1 1 = Inr CELL_EMPTY"
    using mb1 ib11 by (simp_all add: markedBoth_def cornerHitState_cells)
  have u11': "(1, 1) \<in> untried (arduinoAttackGrid g1)"
    using ib11 c11 by (simp add: untried_iff)
  have inv1: "aiInv g1"
    using mb1 cornerHitState_aiInv tl1 f1
    by (simp add: aiInv_def markedBoth_def inBounds_def GRID_SIZE_def)
  have r1: "targetsReady g1 = g1" using f1 by (simp add: targetsReady_def)
  have "targetScan (arduinoAttackGrid g1) (targetList g1) 2 0 0
        = Inr (True, fst (targetList g1 ! unat (2::u8)), snd (targetList g1 ! unat (2::u8)), 2 + 1)"
    by (rule targetScan_take) (simp_all add: tl1 c11)
  then have s2: "targetScan (arduinoAttackGrid g1) (targetList (targetsReady g1))
           (targetIndex (targetsReady g1)) 0 0 = Inr (True, 1, 1, 3)"
    unfolding r1 f1 by (simp add: tl1)
  note st2 = arduinoAttack_target_step[OF inv1 f1(3) s2 ib11, of "sconst 0",
      unfolded p11 f1 if_not_P[OF hs]]
  from st2 obtain g2 where a2: "arduinoAttack g1 (sconst 0) = Some (Inr (g2, sconst 0))"
    and mb2: "markedBoth (arduinoAttackGrid g1) (arduinoAttackGrid g2) (playerGrid g1)
                (playerGrid g2) 1 1 CELL_MISS"
    and f2: "lastHitX g2 = 0" "lastHitY g2 = 0"
    by blast
  have c2: "getCellState (arduinoAttackGrid g2) 1 1 = Inr CELL_MISS"
    using mb2 by (simp add: markedBoth_def)
  show ?thesis
    using u11 a1 f1 c01 u11' a2 f2 c2 by (simp add: cornerHitState_targets)
qed


section \<open>Properties of the strict placement validator\<close>

lemma cellAt_wellFormed:
  "wellFormed grid \<Longrightarrow> i < GRID_SIZE_sm \<Longrightarrow> j < GRID_SIZE_sm \<Longrightarrow>
   cellAt grid i j = Inr (grid ! i ! j)"
  by (simp add: cellAt_def wellFormed_def)

lemma cellAt_Inr_bounds:
  "wellFormed grid \<Longrightarrow> cellAt grid i j = Inr c \<Longrightarrow> i < GRID_SIZE_sm \<and> j < GRID_SIZE_sm"
  by (auto simp add: cellAt_def wellFormed_def split: if_splits)

lemma int8_sum_small:
  "unat xi < 12 \<Longrightarrow> d \<in> {- 1, 0, 1} \<Longrightarrow> int8_sum xi d = int (unat xi) + d"
proof -
  assume a: "unat xi < 12" "d \<in> {- 1, 0, 1}"
  have u: "uint xi = int (unat xi)" by simp
  have d: "- 1 \<le> d" "d \<le> 1" using a(2) by auto
  have r: "- 128 \<le> int (unat xi) + d" "int (unat xi) + d < 128"
    using a(1) d by linarith+
  have "sint (word_of_int (int (unat xi) + d) :: 8 word) = int (unat xi) + d"
    unfolding sint_sbintrunc' using r by (intro signed_take_bit_int_eq_self) simp_all
  then show ?thesis unfolding int8_sum_def u .
qed

lemma surroundingsEmpty_True:
  assumes "surroundingsEmpty grid xi yi ds = Inr True" "(dx, dy) \<in> set ds"
    and "0 \<le> int8_sum xi dx" "int8_sum xi dx < int GRID_SIZE_sm"
    and "0 \<le> int8_sum yi dy" "int8_sum yi dy < int GRID_SIZE_sm"
  shows "\<exists>c. cellAt grid (nat (int8_sum xi dx)) (nat (int8_sum yi dy)) = Inr c
           \<and> (c = EMPTY \<or> (int8_sum xi dx = uint xi \<and> int8_sum yi dy = uint yi))"
  using assms(1,2)
proof (induction ds)
  case Nil
  then show ?case by simp
next
  case (Cons d ds)
  obtain ex ey where d: "d = (ex, ey)" by (cases d)
  show ?case
  proof (cases "0 \<le> int8_sum xi ex \<and> int8_sum xi ex < int GRID_SIZE_sm
                 \<and> 0 \<le> int8_sum yi ey \<and> int8_sum yi ey < int GRID_SIZE_sm")
    case False
    then have r: "surroundingsEmpty grid xi yi ds = Inr True"
      using Cons.prems(1) unfolding d by (auto simp add: Let_def)
    have "(dx, dy) \<noteq> (ex, ey)" using False assms(3-6) by auto
    then have "(dx, dy) \<in> set ds" using Cons.prems(2) d by auto
    from Cons.IH[OF r this] show ?thesis .
  next
    case True
    then obtain c where c: "cellAt grid (nat (int8_sum xi ex)) (nat (int8_sum yi ey)) = Inr c"
      and k: "(if c \<noteq> EMPTY \<and> \<not> (int8_sum xi ex = uint xi \<and> int8_sum yi ey = uint yi)
               then Inr False else surroundingsEmpty grid xi yi ds) = Inr True"
      using Cons.prems(1) unfolding d by (auto simp add: Let_def thenF_Inr_iff)
    from k have ok: "c = EMPTY \<or> (int8_sum xi ex = uint xi \<and> int8_sum yi ey = uint yi)"
      and r: "surroundingsEmpty grid xi yi ds = Inr True"
      by (auto split: if_splits)
    show ?thesis
    proof (cases "(dx, dy) = (ex, ey)")
      case True
      then show ?thesis using c ok by auto
    next
      case False
      then have "(dx, dy) \<in> set ds" using Cons.prems(2) d by auto
      from Cons.IH[OF r this] show ?thesis .
    qed
  qed
qed

lemma cellsClear_True:
  assumes "cellsClear grid cells = Inr True" "(xi, yi) \<in> set cells"
  shows "cellAt grid (unat xi) (unat yi) = Inr EMPTY
         \<and> surroundingsEmpty grid xi yi offsets = Inr True"
  using assms
proof (induction cells)
  case Nil
  then show ?case by simp
next
  case (Cons c cells)
  obtain a b where c: "c = (a, b)" by (cases c)
  from Cons.prems(1) obtain v where v: "cellAt grid (unat a) (unat b) = Inr v"
    and k: "(if v \<noteq> EMPTY then Inr False
             else thenF (surroundingsEmpty grid a b offsets)
                    (\<lambda>clear. if \<not> clear then Inr False else cellsClear grid cells)) = Inr True"
    unfolding c by (auto simp add: thenF_Inr_iff)
  from k have e: "v = EMPTY"
    and k2: "thenF (surroundingsEmpty grid a b offsets)
                    (\<lambda>clear. if \<not> clear then Inr False else cellsClear grid cells) = Inr True"
    by (auto split: if_splits)
  from k2 obtain clear where s: "surroundingsEmpty grid a b offsets = Inr clear"
    and k3: "(if \<not> clear then Inr False else cellsClear grid cells) = Inr True"
    by (auto simp add: thenF_Inr_iff)
  from k3 have cl: clear and r: "cellsClear grid cells = Inr True"
    by (auto split: if_splits)
  show ?case
  proof (cases "(xi, yi) = (a, b)")
    case True
    then show ?thesis using v e s cl by simp
  next
    case False
    then have "(xi, yi) \<in> set cells" using Cons.prems(2) c by auto
    from Cons.IH[OF r this] show ?thesis .
  qed
qed

lemma offsets_set: "set offsets = {- 1, 0, 1} \<times> {- 1, 0, 1}"
  by (auto simp add: offsets_def)

text \<open>An accepted footprint cell: in bounds, empty, and so are its in-bounds neighbours.\<close>

lemma clear_cell:
  assumes "wellFormed grid" "cellsClear grid cells = Inr True" "(xi, yi) \<in> set cells"
    and "dx \<in> {- 1, 0, 1}" "dy \<in> {- 1, 0, 1}"
    and "0 \<le> int (unat xi) + dx" "int (unat xi) + dx < int GRID_SIZE_sm"
    and "0 \<le> int (unat yi) + dy" "int (unat yi) + dy < int GRID_SIZE_sm"
  shows "unat xi < GRID_SIZE_sm \<and> unat yi < GRID_SIZE_sm
         \<and> cellAt grid (unat xi) (unat yi) = Inr EMPTY
         \<and> cellAt grid (nat (int (unat xi) + dx)) (nat (int (unat yi) + dy)) = Inr EMPTY"
proof -
  from cellsClear_True[OF assms(2,3)]
  have e: "cellAt grid (unat xi) (unat yi) = Inr EMPTY"
    and s: "surroundingsEmpty grid xi yi offsets = Inr True" by simp_all
  from cellAt_Inr_bounds[OF assms(1) e]
  have b: "unat xi < 12" "unat yi < 12" by (simp_all add: GRID_SIZE_sm_def)
  have sx: "int8_sum xi dx = int (unat xi) + dx" by (rule int8_sum_small[OF b(1) assms(4)])
  have sy: "int8_sum yi dy = int (unat yi) + dy" by (rule int8_sum_small[OF b(2) assms(5)])
  have m: "(dx, dy) \<in> set offsets" using assms(4,5) unfolding offsets_set by blast
  from surroundingsEmpty_True[OF s m] assms(6-9)
  obtain c where c: "cellAt grid (nat (int (unat xi) + dx)) (nat (int (unat yi) + dy)) = Inr c"
    and k: "c = EMPTY \<or> (int (unat xi) + dx = uint xi \<and> int (unat yi) + dy = uint yi)"
    unfolding sx sy by blast
  have "c = EMPTY"
  proof (rule disjE[OF k])
    assume "c = EMPTY" then show ?thesis .
  next
    assume "int (unat xi) + dx = uint xi \<and> int (unat yi) + dy = uint yi"
    then have "dx = 0" "dy = 0" by simp_all
    then show ?thesis using c e by simp
  qed
  then show ?thesis using b e c by (simp add: GRID_SIZE_sm_def)
qed

lemma surroundingsEmpty_total:
  assumes "wellFormed grid"
  shows "\<exists>b. surroundingsEmpty grid xi yi ds = Inr b"
proof (induction ds)
  case Nil
  then show ?case by auto
next
  case (Cons d ds)
  obtain ex ey where d: "d = (ex, ey)" by (cases d)
  show ?case
  proof (cases "0 \<le> int8_sum xi ex \<and> int8_sum xi ex < int GRID_SIZE_sm
                 \<and> 0 \<le> int8_sum yi ey \<and> int8_sum yi ey < int GRID_SIZE_sm")
    case False
    then show ?thesis using Cons.IH unfolding d by (auto simp add: Let_def)
  next
    case True
    then have "nat (int8_sum xi ex) < GRID_SIZE_sm" "nat (int8_sum yi ey) < GRID_SIZE_sm"
      by auto
    from cellAt_wellFormed[OF assms this]
    show ?thesis using True Cons.IH unfolding d by (auto simp add: Let_def)
  qed
qed

lemma cellsClear_total:
  assumes "wellFormed grid"
    and "\<forall>c \<in> set cells. unat (fst c) < GRID_SIZE_sm \<and> unat (snd c) < GRID_SIZE_sm"
  shows "\<exists>b. cellsClear grid cells = Inr b"
  using assms(2)
proof (induction cells)
  case Nil
  then show ?case by auto
next
  case (Cons c cells)
  obtain a b where c: "c = (a, b)" by (cases c)
  have "unat a < GRID_SIZE_sm" "unat b < GRID_SIZE_sm" using Cons.prems c by simp_all
  from cellAt_wellFormed[OF assms(1) this]
  have v: "cellAt grid (unat a) (unat b) = Inr (grid ! unat a ! unat b)" .
  obtain s where s: "surroundingsEmpty grid a b offsets = Inr s"
    using surroundingsEmpty_total[OF assms(1)] by blast
  have "\<exists>b. cellsClear grid cells = Inr b" using Cons.IH Cons.prems by simp
  then show ?case unfolding c using v s by auto
qed

lemma footprint_mem:
  "c \<in> set (footprint x y sz h)
   \<longleftrightarrow> (\<exists>i. i < unat sz \<and> c = (if h then (x + of_nat i, y) else (x, y + of_nat i)))"
  by (cases h) (auto simp add: footprint_def)

lemma footprint_cells_small:
  assumes "if h then unat x + unat sz \<le> GRID_SIZE_sm \<and> unat y < GRID_SIZE_sm
           else unat y + unat sz \<le> GRID_SIZE_sm \<and> unat x < GRID_SIZE_sm"
  shows "\<forall>c \<in> set (footprint x y sz h). unat (fst c) < GRID_SIZE_sm \<and> unat (snd c) < GRID_SIZE_sm"
proof
  fix c assume "c \<in> set (footprint x y sz h)"
  then obtain i where i: "i < unat sz"
    and c: "c = (if h then (x + of_nat i, y) else (x, y + of_nat i))"
    unfolding footprint_mem by blast
  show "unat (fst c) < GRID_SIZE_sm \<and> unat (snd c) < GRID_SIZE_sm"
  proof (cases h)
    case True
    then have "unat (x + of_nat i) = unat x + i"
      using assms i by (intro unat_add_small) (simp add: GRID_SIZE_sm_def)
    then show ?thesis using True assms i c by simp
  next
    case False
    then have "unat (y + of_nat i) = unat y + i"
      using assms i by (intro unat_add_small) (simp add: GRID_SIZE_sm_def)
    then show ?thesis using False assms i c by simp
  qed
qed

lemma canPlaceShip_sm_total:
  assumes "wellFormed grid" "unat x < GRID_SIZE_sm" "unat y < GRID_SIZE_sm"
  shows "\<exists>b. canPlaceShip_sm grid x y sz h = Inr b"
proof (cases h)
  case True
  show ?thesis
  proof (cases "unat x + unat sz > GRID_SIZE_sm")
    case over: True
    then show ?thesis using True by (auto simp add: canPlaceShip_sm_def)
  next
    case False
    then have "\<forall>c \<in> set (footprint x y sz True).
        unat (fst c) < GRID_SIZE_sm \<and> unat (snd c) < GRID_SIZE_sm"
      using assms(3) by (intro footprint_cells_small) simp
    from cellsClear_total[OF assms(1) this]
    show ?thesis using True False by (simp add: canPlaceShip_sm_def)
  qed
next
  case False
  show ?thesis
  proof (cases "unat y + unat sz > GRID_SIZE_sm")
    case True
    then show ?thesis using False by (auto simp add: canPlaceShip_sm_def)
  next
    case fits: False
    then have "\<forall>c \<in> set (footprint x y sz False).
        unat (fst c) < GRID_SIZE_sm \<and> unat (snd c) < GRID_SIZE_sm"
      using assms(2) by (intro footprint_cells_small) simp
    from cellsClear_total[OF assms(1) this]
    show ?thesis using False fits by (simp add: canPlaceShip_sm_def)
  qed
qed

lemma canPlaceShip_sm_accepts:
  assumes "wellFormed grid" "canPlaceShip_sm grid x y sz h = Inr True"
    and "i < unat sz" "dx \<in> {- 1, 0, 1}" "dy \<in> {- 1, 0, 1}"
  defines "xi \<equiv> (if h then unat x + i else unat x)"
    and "yi \<equiv> (if h then unat y else unat y + i)"
  shows "xi < GRID_SIZE_sm \<and> yi < GRID_SIZE_sm
         \<and> cellAt grid xi yi = Inr EMPTY
         \<and> (0 \<le> int xi + dx \<and> int xi + dx < int GRID_SIZE_sm
              \<and> 0 \<le> int yi + dy \<and> int yi + dy < int GRID_SIZE_sm
            \<longrightarrow> cellAt grid (nat (int xi + dx)) (nat (int yi + dy)) = Inr EMPTY)"
proof -
  define a where "a = (if h then x + of_nat i else x)"
  define b where "b = (if h then y else y + of_nat i)"
  have ext: "if h then unat x + unat sz \<le> GRID_SIZE_sm else unat y + unat sz \<le> GRID_SIZE_sm"
    and cc: "cellsClear grid (footprint x y sz h) = Inr True"
    using assms(2) by (auto simp add: canPlaceShip_sm_def split: if_splits)
  have mem: "(a, b) \<in> set (footprint x y sz h)"
    using assms(3) unfolding footprint_mem a_def b_def by auto
  have ua: "unat a = xi"
    using ext assms(3) unfolding a_def xi_def
    by (auto simp add: GRID_SIZE_sm_def intro!: unat_add_small)
  have ub: "unat b = yi"
    using ext assms(3) unfolding b_def yi_def
    by (auto simp add: GRID_SIZE_sm_def intro!: unat_add_small)
  from cellsClear_True[OF cc mem]
  have e: "cellAt grid xi yi = Inr EMPTY" unfolding ua ub by simp
  from cellAt_Inr_bounds[OF assms(1) e] have bd: "xi < GRID_SIZE_sm" "yi < GRID_SIZE_sm"
    by simp_all
  have "0 \<le> int xi + dx \<and> int xi + dx < int GRID_SIZE_sm
              \<and> 0 \<le> int yi + dy \<and> int yi + dy < int GRID_SIZE_sm
            \<longrightarrow> cellAt grid (nat (int xi + dx)) (nat (int yi + dy)) = Inr EMPTY"
  proof
    assume n: "0 \<le> int xi + dx \<and> int xi + dx < int GRID_SIZE_sm
              \<and> 0 \<le> int yi + dy \<and> int yi + dy < int GRID_SIZE_sm"
    from clear_cell[OF assms(1) cc mem assms(4,5)] n
    show "cellAt grid (nat (int xi + dx)) (nat (int yi + dy)) = Inr EMPTY"
      unfolding ua ub by blast
  qed
  then show ?thesis using bd e by blast
qed

text \<open>
  C5. On a well-formed 12 x 12 grid the strict validator returns a verdict for every
  in-bounds anchor. When it accepts, every footprint cell is in bounds and empty and
  every in-bounds cell among the 8 neighbours of every footprint cell is empty: no ship
  touches the footprint, not even diagonally. Hence for an in-bounds anchor the verdict
  is false whenever some in-bounds neighbour of a footprint cell is not empty.
\<close>

theorem C5_strict_placement_buffer:
  assumes "wellFormed grid"
  shows "(unat x < GRID_SIZE_sm \<and> unat y < GRID_SIZE_sm
           \<longrightarrow> (\<exists>b. canPlaceShip_sm grid x y sz h = Inr b))
       \<and> (canPlaceShip_sm grid x y sz h = Inr True \<longrightarrow>
            (\<forall>i dx dy. i < unat sz \<and> dx \<in> {- 1, 0, 1} \<and> dy \<in> {- 1, 0, 1} \<longrightarrow>
               (let xi = (if h then unat x + i else unat x);
                    yi = (if h then unat y else unat y + i)
                in xi < GRID_SIZE_sm \<and> yi < GRID_SIZE_sm
                   \<and> cellAt grid xi yi = Inr EMPTY
                   \<and> (0 \<le> int xi + dx \<and> int xi + dx < int GRID_SIZE_sm
                        \<and> 0 \<le> int yi + dy \<and> int yi + dy < int GRID_SIZE_sm
                      \<longrightarrow> cellAt grid (nat (int xi + dx)) (nat (int yi + dy)) = Inr EMPTY))))
       \<and> (unat x < GRID_SIZE_sm \<and> unat y < GRID_SIZE_sm
            \<and> (\<exists>i dx dy. i < unat sz \<and> dx \<in> {- 1, 0, 1} \<and> dy \<in> {- 1, 0, 1}
                  \<and> (let xi = (if h then unat x + i else unat x);
                          yi = (if h then unat y else unat y + i)
                      in 0 \<le> int xi + dx \<and> int xi + dx < int GRID_SIZE_sm
                         \<and> 0 \<le> int yi + dy \<and> int yi + dy < int GRID_SIZE_sm
                         \<and> cellAt grid (nat (int xi + dx)) (nat (int yi + dy)) \<noteq> Inr EMPTY))
           \<longrightarrow> canPlaceShip_sm grid x y sz h = Inr False)"
proof -
  have total: "unat x < GRID_SIZE_sm \<and> unat y < GRID_SIZE_sm
           \<longrightarrow> (\<exists>b. canPlaceShip_sm grid x y sz h = Inr b)"
    using canPlaceShip_sm_total[OF assms] by blast
  have acc: "canPlaceShip_sm grid x y sz h = Inr True \<longrightarrow>
            (\<forall>i dx dy. i < unat sz \<and> dx \<in> {- 1, 0, 1} \<and> dy \<in> {- 1, 0, 1} \<longrightarrow>
               (let xi = (if h then unat x + i else unat x);
                    yi = (if h then unat y else unat y + i)
                in xi < GRID_SIZE_sm \<and> yi < GRID_SIZE_sm
                   \<and> cellAt grid xi yi = Inr EMPTY
                   \<and> (0 \<le> int xi + dx \<and> int xi + dx < int GRID_SIZE_sm
                        \<and> 0 \<le> int yi + dy \<and> int yi + dy < int GRID_SIZE_sm
                      \<longrightarrow> cellAt grid (nat (int xi + dx)) (nat (int yi + dy)) = Inr EMPTY)))"
  proof (intro impI allI)
    fix i :: nat and dx dy :: int
    assume a: "canPlaceShip_sm grid x y sz h = Inr True"
      and b: "i < unat sz \<and> dx \<in> {- 1, 0, 1} \<and> dy \<in> {- 1, 0, 1}"
    from b have b1: "i < unat sz" and b2: "dx \<in> {- 1, 0, 1}" and b3: "dy \<in> {- 1, 0, 1}"
      by blast+
    from canPlaceShip_sm_accepts[OF assms a b1 b2 b3]
    show "let xi = (if h then unat x + i else unat x);
              yi = (if h then unat y else unat y + i)
          in xi < GRID_SIZE_sm \<and> yi < GRID_SIZE_sm
             \<and> cellAt grid xi yi = Inr EMPTY
             \<and> (0 \<le> int xi + dx \<and> int xi + dx < int GRID_SIZE_sm
                  \<and> 0 \<le> int yi + dy \<and> int yi + dy < int GRID_SIZE_sm
                \<longrightarrow> cellAt grid (nat (int xi + dx)) (nat (int yi + dy)) = Inr EMPTY)"
      unfolding Let_def .
  qed
  have rej: "unat x < GRID_SIZE_sm \<and> unat y < GRID_SIZE_sm
            \<and> (\<exists>i dx dy. i < unat sz \<and> dx \<in> {- 1, 0, 1} \<and> dy \<in> {- 1, 0, 1}
                  \<and> (let xi = (if h then unat x + i else unat x);
                          yi = (if h then unat y else unat y + i)
                      in 0 \<le> int xi + dx \<and> int xi + dx < int GRID_SIZE_sm
                         \<and> 0 \<le> int yi + dy \<and> int yi + dy < int GRID_SIZE_sm
                         \<and> cellAt grid (nat (int xi + dx)) (nat (int yi + dy)) \<noteq> Inr EMPTY))
           \<longrightarrow> canPlaceShip_sm grid x y sz h = Inr False"
  proof
    assume a: "unat x < GRID_SIZE_sm \<and> unat y < GRID_SIZE_sm
            \<and> (\<exists>i dx dy. i < unat sz \<and> dx \<in> {- 1, 0, 1} \<and> dy \<in> {- 1, 0, 1}
                  \<and> (let xi = (if h then unat x + i else unat x);
                          yi = (if h then unat y else unat y + i)
                      in 0 \<le> int xi + dx \<and> int xi + dx < int GRID_SIZE_sm
                         \<and> 0 \<le> int yi + dy \<and> int yi + dy < int GRID_SIZE_sm
                         \<and> cellAt grid (nat (int xi + dx)) (nat (int yi + dy)) \<noteq> Inr EMPTY))"
    then obtain b where b: "canPlaceShip_sm grid x y sz h = Inr b" using total by blast
    have "\<not> b"
    proof
      assume b
      then have "canPlaceShip_sm grid x y sz h = Inr True" using b by simp
      with acc a show False unfolding Let_def by blast
    qed
    then show "canPlaceShip_sm grid x y sz h = Inr False" using b by simp
  qed
  show ?thesis using total acc rej by blast
qed

lemma wellFormed_empty: "wellFormed (replicate 12 (replicate 12 0))"
  by (simp add: wellFormed_def GRID_SIZE_sm_def)

lemma int8_sum_numeral [simp]:
  "int8_sum 3 (- 1) = 2" "int8_sum 3 0 = 3" "int8_sum 3 1 = 4"
  "int8_sum 4 (- 1) = 3" "int8_sum 4 0 = 4" "int8_sum 4 1 = 5"
  by (simp_all add: int8_sum_def)

lemma canPlace_example:
  "canPlaceShip_sm (replicate 12 (replicate 12 0)) 3 3 2 True = Inr True"
  by (simp add: canPlaceShip_sm_def footprint_def GRID_SIZE_sm_def upt_rec offsets_def
      cellAt_def EMPTY_def Let_def)

lemma wellFormed_one_ship:
  "wellFormed ((replicate 12 (replicate 12 0))[5 := (replicate 12 0)[4 := 1]])"
  by (auto simp add: wellFormed_def GRID_SIZE_sm_def dest!: subsetD[OF set_update_subset_insert])

lemma cell_5_4_ship:
  "cellAt ((replicate 12 (replicate 12 0))[5 := (replicate 12 0)[4 := 1]]) 5 4 = Inr 1"
  by (simp add: cellAt_def)

theorem C5_strict_placement_buffer_witness:
  "wellFormed (replicate 12 (replicate 12 0))
   \<and> canPlaceShip_sm (replicate 12 (replicate 12 0)) 3 3 2 True = Inr True
   \<and> cellAt (replicate 12 (replicate 12 0)) 5 4 = Inr EMPTY
   \<and> wellFormed ((replicate 12 (replicate 12 0))[5 := (replicate 12 0)[4 := 1]])
   \<and> unat (3::u8) < GRID_SIZE_sm
   \<and> cellAt ((replicate 12 (replicate 12 0))[5 := (replicate 12 0)[4 := 1]]) 5 4 \<noteq> Inr EMPTY
   \<and> canPlaceShip_sm ((replicate 12 (replicate 12 0))[5 := (replicate 12 0)[4 := 1]]) 3 3 2 True
       = Inr False"
proof -
  let ?g0 = "replicate 12 (replicate 12 (0::u8))"
  let ?g1 = "(replicate 12 (replicate 12 (0::u8)))[5 := (replicate 12 0)[4 := 1]]"
  have b: "unat (3::u8) < GRID_SIZE_sm" by (simp add: GRID_SIZE_sm_def)
  have i: "(1::nat) < unat (2::u8) \<and> (1::int) \<in> {- 1, 0, 1} \<and> (1::int) \<in> {- 1, 0, 1}" by simp
  note t0 = C5_strict_placement_buffer[OF wellFormed_empty, of 3 3 2 True]
  from t0 canPlace_example i
  have "let xi = (if True then unat (3::u8) + 1 else unat (3::u8));
            yi = (if True then unat (3::u8) else unat (3::u8) + 1)
        in xi < GRID_SIZE_sm \<and> yi < GRID_SIZE_sm
           \<and> cellAt ?g0 xi yi = Inr EMPTY
           \<and> (0 \<le> int xi + 1 \<and> int xi + 1 < int GRID_SIZE_sm
                \<and> 0 \<le> int yi + 1 \<and> int yi + 1 < int GRID_SIZE_sm
              \<longrightarrow> cellAt ?g0 (nat (int xi + 1)) (nat (int yi + 1)) = Inr EMPTY)"
    by blast
  then have a: "cellAt ?g0 5 4 = Inr EMPTY"
    by (simp add: Let_def GRID_SIZE_sm_def)
  have ne: "cellAt ?g1 5 4 \<noteq> Inr EMPTY"
    unfolding cell_5_4_ship by (simp add: EMPTY_def)
  have ex: "\<exists>i dx dy. i < unat (2::u8) \<and> dx \<in> {- 1, 0, 1} \<and> dy \<in> {- 1, 0, 1}
                  \<and> (let xi = (if True then unat (3::u8) + i else unat (3::u8));
                          yi = (if True then unat (3::u8) else unat (3::u8) + i)
                      in 0 \<le> int xi + dx \<and> int xi + dx < int GRID_SIZE_sm
                         \<and> 0 \<le> int yi + dy \<and> int yi + dy < int GRID_SIZE_sm
                         \<and> cellAt ?g1 (nat (int xi + dx)) (nat (int yi + dy)) \<noteq> Inr EMPTY)"
    using ne
    by (rule_tac x = 1 in exI, rule_tac x = 1 in exI, rule_tac x = 1 in exI)
      (simp add: Let_def GRID_SIZE_sm_def)
  note t1 = C5_strict_placement_buffer[OF wellFormed_one_ship, of 3 3 2 True]
  from t1 b ex have r: "canPlaceShip_sm ?g1 3 3 2 True = Inr False" by blast
  show ?thesis
    using wellFormed_empty canPlace_example a wellFormed_one_ship b ne r by blast
qed

section \<open>The cell accessors of the second sketch\<close>

lemma cellByteIndex_v2_inBounds: "inBounds x y \<Longrightarrow> cellByteIndex_v2 x y = cellByteIndex x y"
proof -
  assume "inBounds x y"
  then have "cellByteIndex x y < 25" using inBounds_byteIndex[of x y] by (simp add: totalGridBytes_eq)
  then have "unat (cellBitIndex x y div 8) < 256" by (simp add: cellByteIndex_def)
  then show ?thesis
    unfolding cellByteIndex_v2_def cellByteIndex_def
    by (simp add: unsigned_ucast_eq take_bit_nat_eq_self)
qed

lemma second_sketch_agrees:
  assumes "inBounds x y"
  shows "setCellState_v2 g x y s = setCellState g x y s"
    and "getCellState_v2 g x y = getCellState g x y"
  using cellByteIndex_v2_inBounds[OF assms]
  by (simp_all add: setCellState_v2_def getCellState_v2_def setCellState_single
      getCellState_single Let_def)

section \<open>The validator of the unnamed sketch\<close>

lemma cellsEmpty_p1_True:
  "cellsEmpty_p1 grid cells = Inr True \<Longrightarrow> c \<in> set cells \<Longrightarrow>
   cellAt grid (fst c) (snd c) = Inr EMPTY"
proof (induction cells)
  case Nil
  then show ?case by simp
next
  case (Cons d cells)
  obtain i j where d: "d = (i, j)" by (cases d)
  from Cons.prems(1) obtain v where v: "cellAt grid i j = Inr v"
    and k: "(if v \<noteq> EMPTY then Inr False else cellsEmpty_p1 grid cells) = Inr True"
    unfolding d by (auto simp add: thenF_Inr_iff)
  from k have e: "v = EMPTY" and r: "cellsEmpty_p1 grid cells = Inr True"
    by (auto split: if_splits)
  show ?case
  proof (cases "c = d")
    case True
    then show ?thesis using v e d by simp
  next
    case False
    then have "c \<in> set cells" using Cons.prems(2) by simp
    from Cons.IH[OF r this] show ?thesis .
  qed
qed

text \<open>
  The validator of \<^verbatim>\<open>part_001\<close> reads a two-dimensional array, where an index beyond
  either dimension is an overrun: on a well-formed grid an accepted footprint is in
  bounds and empty whatever the anchor.
\<close>

lemma canPlaceShip_p1_footprint:
  assumes "wellFormed grid" "canPlaceShip_p1 grid x y sz h = Inr True" "i < unat sz"
  shows "(if h then unat x + i else unat x) < GRID_SIZE_sm
         \<and> (if h then unat y else unat y + i) < GRID_SIZE_sm
         \<and> cellAt grid (if h then unat x + i else unat x) (if h then unat y else unat y + i)
             = Inr EMPTY"
proof -
  have cc: "cellsEmpty_p1 grid (footprint_p1 x y sz h) = Inr True"
    using assms(2) by (auto simp add: canPlaceShip_p1_def split: if_splits)
  have "(if h then (unat x + i, unat y) else (unat x, unat y + i)) \<in> set (footprint_p1 x y sz h)"
    using assms(3) by (cases h) (auto simp add: footprint_p1_def)
  from cellsEmpty_p1_True[OF cc this]
  have e: "cellAt grid (if h then unat x + i else unat x) (if h then unat y else unat y + i)
             = Inr EMPTY"
    by (cases h) simp_all
  from cellAt_Inr_bounds[OF assms(1) e] e show ?thesis by blast
qed

section \<open>Reset and the placement counter\<close>

subsection \<open>The reset of the test sketch\<close>

text \<open>
  The sketch of \<^verbatim>\<open>battle_ship_test_code.ino\<close> does reinitialise everything: whenever
  \<^verbatim>\<open>resetGame\<close> returns, the player's grid and both attack grids are cleared, the cursor,
  the orientation, the counter of placed ships and the opponent's mode have their initial
  values and the phase is \<^verbatim>\<open>PLACING_SHIPS\<close>.
\<close>

lemma resetGame_reinitialises:
  assumes "resetGame g rs = Some (Inr (g', rs'))"
  shows "gameState g' = PLACING_SHIPS \<and> shipId g' = 0
         \<and> cursorX g' = 0 \<and> cursorY g' = 0 \<and> playerShipHorizontal g'
         \<and> arduinoAttackMode g' = HUNT_MODE \<and> lastHitX g' = 0 \<and> lastHitY g' = 0
         \<and> targetIndex g' = 0 \<and> \<not> targetListInitialized g'
         \<and> playerGrid g' = replicate (length (playerGrid g)) 0
         \<and> playerAttackGrid g' = replicate (length (playerAttackGrid g)) 0
         \<and> arduinoAttackGrid g' = replicate (length (arduinoAttackGrid g)) 0"
  using assms
  by (auto simp add: resetGame_def placeArduinoShips_def initializeGrids_def
      split: option.splits sum.splits prod.splits)

text \<open>No other function of that sketch sets the phase to \<^verbatim>\<open>PLACING_SHIPS\<close>.\<close>

lemma handleJoystickButton_phase [simp]:
  "gameState (handleJoystickButton p g) = gameState g"
  by (simp add: handleJoystickButton_def Let_def)

lemma playerPlaceShips_phase:
  assumes "playerPlaceShips p g = Inr g'"
  shows "gameState g' = gameState g \<or> gameState g' = PLAYER_TURN"
proof (cases "unat (shipId g) \<ge> NUM_SHIPS")
  case True
  then show ?thesis using assms by (auto simp add: playerPlaceShips_def)
next
  case False
  define g2 where "g2 = fst (redButtonPressed p (updateCursorPosition p g))"
  have s2: "gameState g2 = gameState g" by (simp add: g2_def)
  from assms False obtain g3 where
    g3: "g3 = g2 \<or> (\<exists>grid'. g3 = g2\<lparr>playerGrid := grid', shipId := shipId g2 + 1\<rparr>)"
    and r: "g' = handleJoystickButton p (g3\<lparr>lastRedButtonState := redPin p\<rparr>)"
    unfolding playerPlaceShips_def g2_def
    by (auto simp add: Let_def thenF_Inr_iff split_beta split: if_splits)
  have "gameState g3 = gameState g" using g3 s2 by auto
  then show ?thesis using r by simp
qed

lemma playerFire_phase:
  assumes "playerFire g = Inr (g', r)"
  shows "gameState g' = gameState g \<or> gameState g' = ARDUINO_TURN \<or> gameState g' = GAME_OVER"
  using assms unfolding playerFire_def
  by (auto simp add: thenF_Inr_iff split: if_splits)

lemma playerAttack_phase:
  assumes "playerAttack p g = Inr g'"
  shows "gameState g' = gameState g \<or> gameState g' = ARDUINO_TURN \<or> gameState g' = GAME_OVER"
proof -
  define g2 where "g2 = fst (redButtonPressed p (updateCursorPosition p g))"
  have s2: "gameState g2 = gameState g" by (simp add: g2_def)
  from assms have "g' = g2\<lparr>lastRedButtonState := redPin p\<rparr>
      \<or> (\<exists>g3 r. playerFire g2 = Inr (g3, r)
            \<and> (g' = g3 \<or> g' = g3\<lparr>lastRedButtonState := redPin p\<rparr>))"
    unfolding playerAttack_def g2_def
    by (auto simp add: Let_def thenF_Inr_iff split_beta split: if_splits)
  then show ?thesis using playerFire_phase[of g2] s2 by auto
qed

lemma arduinoAttack_phase:
  assumes "arduinoAttack g rs = Some (Inr (g', rs'))"
  shows "gameState g' = PLAYER_TURN \<or> gameState g' = GAME_OVER"
proof -
  from arduinoAttack_result[OF assms] obtain g0 x y
    where "arduinoResolveAndCheck g0 x y = Inr g'" by blast
  from arduinoResolveAndCheck_state[OF this] show ?thesis by (auto split: if_splits)
qed

subsection \<open>The reset of the unnamed sketch\<close>

lemma placeOneShip_p1_first:
  assumes "canPlaceShip_p1 grid (of_nat (arduino_random 0 GRID_SIZE_sm (shd rs)))
             (of_nat (arduino_random 0 GRID_SIZE_sm (shd (stl rs)))) shipSize
             (arduino_random 0 2 (shd (stl (stl rs))) \<noteq> 0) = Inr True"
  shows "placeOneShip_p1 grid shipSize sid rs =
           Some (thenF (placeShip_p1 grid (of_nat (arduino_random 0 GRID_SIZE_sm (shd rs)))
                          (of_nat (arduino_random 0 GRID_SIZE_sm (shd (stl rs)))) shipSize
                          (arduino_random 0 2 (shd (stl (stl rs))) \<noteq> 0) (sid + 1))
                   (\<lambda>grid'. Inr (grid', stl (stl (stl rs)))))"
  using assms by (subst placeOneShip_p1.simps) (simp add: Let_def)

lemma roster_p1: "zip (map of_nat [0..<NUM_SHIPS_sm]) (map snd ships_sm)
   = [(0, 5), (1, 4), (2, 3), (3, 3), (4, 2), (5, 2), (6, 1 :: u8)]"
  by (simp add: NUM_SHIPS_sm_def ships_sm_def upt_rec)

lemma cellsEmpty_p1_all:
  "\<forall>c \<in> set cells. cellAt grid (fst c) (snd c) = Inr EMPTY \<Longrightarrow> cellsEmpty_p1 grid cells = Inr True"
  by (induction cells) auto

lemma wellFormed_setAt:
  assumes "wellFormed grid" "i < GRID_SIZE_sm" "j < GRID_SIZE_sm"
  shows "\<exists>grid'. setAt grid i j v = Inr grid' \<and> wellFormed grid'
           \<and> (\<forall>a b. cellAt grid' a b = (if (a, b) = (i, j) then Inr v else cellAt grid a b))"
proof -
  let ?g = "grid[i := (grid ! i)[j := v]]"
  have len: "length grid = GRID_SIZE_sm" and rows: "\<forall>row \<in> set grid. length row = GRID_SIZE_sm"
    using assms(1) by (simp_all add: wellFormed_def)
  have ri: "length (grid ! i) = GRID_SIZE_sm" using len rows assms(2) by simp
  have s: "setAt grid i j v = Inr ?g" using len ri assms by (simp add: setAt_def)
  have "set ?g \<subseteq> insert ((grid ! i)[j := v]) (set grid)" by (rule set_update_subset_insert)
  then have wf: "wellFormed ?g" using len rows ri by (auto simp add: wellFormed_def)
  have "\<forall>a b. cellAt ?g a b = (if (a, b) = (i, j) then Inr v else cellAt grid a b)"
  proof (intro allI)
    fix a b
    show "cellAt ?g a b = (if (a, b) = (i, j) then Inr v else cellAt grid a b)"
    proof (cases "a = i")
      case False
      then show ?thesis by (simp add: cellAt_def)
    next
      case True
      then show ?thesis using len ri assms(2,3)
        by (cases "b = j") (simp_all add: cellAt_def)
    qed
  qed
  then show ?thesis using s wf by blast
qed

lemma setCells_p1_ok:
  assumes "wellFormed grid" "\<forall>c \<in> set cells. fst c < GRID_SIZE_sm \<and> snd c < GRID_SIZE_sm"
  shows "\<exists>grid'. setCells_p1 grid cells v = Inr grid' \<and> wellFormed grid'
           \<and> (\<forall>a b. (a, b) \<notin> set cells \<longrightarrow> cellAt grid' a b = cellAt grid a b)"
  using assms
proof (induction cells arbitrary: grid)
  case Nil
  then show ?case by simp
next
  case (Cons c cells)
  obtain i j where c: "c = (i, j)" by (cases c)
  have ij: "i < GRID_SIZE_sm" "j < GRID_SIZE_sm" using Cons.prems(2) c by simp_all
  from wellFormed_setAt[OF Cons.prems(1) ij, of v] obtain g1 where
    s: "setAt grid i j v = Inr g1" and wf: "wellFormed g1"
    and k: "\<forall>a b. cellAt g1 a b = (if (a, b) = (i, j) then Inr v else cellAt grid a b)"
    by blast
  have "\<forall>c \<in> set cells. fst c < GRID_SIZE_sm \<and> snd c < GRID_SIZE_sm" using Cons.prems(2) by simp
  from Cons.IH[OF wf this] obtain g2 where
    s2: "setCells_p1 g1 cells v = Inr g2" and wf2: "wellFormed g2"
    and k2: "\<forall>a b. (a, b) \<notin> set cells \<longrightarrow> cellAt g2 a b = cellAt g1 a b"
    by blast
  have "setCells_p1 grid (c # cells) v = Inr g2" using s s2 unfolding c by simp
  moreover have "\<forall>a b. (a, b) \<notin> set (c # cells) \<longrightarrow> cellAt g2 a b = cellAt grid a b"
    using k k2 unfolding c by auto
  ultimately show ?case using wf2 by blast
qed

text \<open>
  A grid whose rows from \<open>k\<close> on are empty takes a horizontal ship at column 0 of row
  \<open>k\<close> on the first draw, and the rows from \<open>k + 1\<close> on stay empty.
\<close>

lemma place_in_row:
  assumes "rowsEmptyFrom grid k" "k < 12" "unat sz \<le> 12"
  shows "\<exists>grid'. placeOneShip_p1 grid sz sid (0 ## k ## 1 ## rs) = Some (Inr (grid', rs))
           \<and> rowsEmptyFrom grid' (Suc k)"
proof -
  let ?rs = "0 ## k ## 1 ## rs"
  have wf: "wellFormed grid"
    and em: "\<And>i j. i < 12 \<Longrightarrow> k \<le> j \<Longrightarrow> j < 12 \<Longrightarrow> cellAt grid i j = Inr EMPTY"
    using assms(1) by (simp_all add: rowsEmptyFrom_def GRID_SIZE_sm_def)
  have x: "(of_nat (arduino_random 0 GRID_SIZE_sm (shd ?rs)) :: u8) = 0"
    by (simp add: arduino_random_def GRID_SIZE_sm_def)
  have y: "unat (of_nat (arduino_random 0 GRID_SIZE_sm (shd (stl ?rs))) :: u8) = k"
    using assms(2) by (simp add: arduino_random_def GRID_SIZE_sm_def unat_of_nat)
  have h: "(arduino_random 0 2 (shd (stl (stl ?rs))) \<noteq> 0) = True"
    by (simp add: arduino_random_def)
  define yw :: u8 where "yw = of_nat (arduino_random 0 GRID_SIZE_sm (shd (stl ?rs)))"
  have yk: "unat yw = k" using y by (simp add: yw_def)
  have fp: "footprint_p1 0 yw sz True = map (\<lambda>i. (i, k)) [0..<unat sz]"
    by (simp add: footprint_p1_def yk)
  have "\<forall>c \<in> set (footprint_p1 0 yw sz True). cellAt grid (fst c) (snd c) = Inr EMPTY"
    unfolding fp using em assms(2,3) by auto
  then have ce: "cellsEmpty_p1 grid (footprint_p1 0 yw sz True) = Inr True"
    by (rule cellsEmpty_p1_all)
  have can: "canPlaceShip_p1 grid 0 yw sz True = Inr True"
    using ce assms(3) by (simp add: canPlaceShip_p1_def GRID_SIZE_sm_def)
  have inr: "\<forall>c \<in> set (footprint_p1 0 yw sz True). fst c < GRID_SIZE_sm \<and> snd c < GRID_SIZE_sm"
    unfolding fp using assms(2,3) by (auto simp add: GRID_SIZE_sm_def)
  from setCells_p1_ok[OF wf inr, of SHIP_PRESENT] obtain g' where
    s: "setCells_p1 grid (footprint_p1 0 yw sz True) SHIP_PRESENT = Inr g'"
    and wf': "wellFormed g'"
    and k': "\<forall>a b. (a, b) \<notin> set (footprint_p1 0 yw sz True) \<longrightarrow> cellAt g' a b = cellAt grid a b"
    by blast
  have pl: "placeShip_p1 grid 0 yw sz True (sid + 1) = Inr g'"
    using s by (simp add: placeShip_p1_def)
  have "placeOneShip_p1 grid sz sid ?rs = Some (Inr (g', rs))"
    apply (subst placeOneShip_p1_first)
    unfolding x h yw_def[symmetric]
     apply (rule can)
    using pl by simp
  moreover have "rowsEmptyFrom g' (Suc k)"
    unfolding rowsEmptyFrom_def
  proof (intro conjI allI impI)
    show "wellFormed g'" by (rule wf')
  next
    fix i j assume a: "i < GRID_SIZE_sm \<and> Suc k \<le> j \<and> j < GRID_SIZE_sm"
    then have "(i, j) \<notin> set (footprint_p1 0 yw sz True)" unfolding fp by auto
    then have "cellAt g' i j = cellAt grid i j" using k' by blast
    then show "cellAt g' i j = Inr EMPTY" using em[of i j] a by (simp add: GRID_SIZE_sm_def)
  qed
  ultimately show ?thesis by blast
qed

lemma empty_board_rows: "rowsEmptyFrom (replicate 12 (replicate 12 0)) 0"
  by (simp add: rowsEmptyFrom_def wellFormed_def GRID_SIZE_sm_def cellAt_def EMPTY_def)

lemma placeRoster_p1_rows:
  assumes "rowsEmptyFrom grid 0"
  shows "\<exists>grid'. placeRoster_p1 [(0, 5), (1, 4), (2, 3), (3, 3), (4, 2), (5, 2), (6, 1)]
                    grid rowsSource = Some (Inr (grid', sconst 0))"
proof -
  define s6 :: "nat stream" where "s6 = 0 ## 6 ## 1 ## sconst 0"
  define s5 where "s5 = 0 ## 5 ## 1 ## s6"
  define s4 where "s4 = 0 ## 4 ## 1 ## s5"
  define s3 where "s3 = 0 ## 3 ## 1 ## s4"
  define s2 where "s2 = 0 ## 2 ## 1 ## s3"
  define s1 where "s1 = 0 ## 1 ## 1 ## s2"
  have src: "rowsSource = 0 ## 0 ## 1 ## s1"
    by (simp add: rowsSource_def s1_def s2_def s3_def s4_def s5_def s6_def)
  have "\<exists>g'. placeOneShip_p1 grid 5 0 (0 ## 0 ## 1 ## s1) = Some (Inr (g', s1))
          \<and> rowsEmptyFrom g' (Suc 0)"
    by (rule place_in_row[OF assms]) simp_all
  then obtain g1 where p1: "placeOneShip_p1 grid 5 0 (0 ## 0 ## 1 ## s1) = Some (Inr (g1, s1))"
    and r1: "rowsEmptyFrom g1 1" by auto
  have "\<exists>g'. placeOneShip_p1 g1 4 1 (0 ## 1 ## 1 ## s2) = Some (Inr (g', s2))
          \<and> rowsEmptyFrom g' (Suc 1)"
    by (rule place_in_row[OF r1]) simp_all
  then obtain g2 where p2: "placeOneShip_p1 g1 4 1 s1 = Some (Inr (g2, s2))"
    and r2: "rowsEmptyFrom g2 2" unfolding s1_def by (auto simp add: eval_nat_numeral)
  have "\<exists>g'. placeOneShip_p1 g2 3 2 (0 ## 2 ## 1 ## s3) = Some (Inr (g', s3))
          \<and> rowsEmptyFrom g' (Suc 2)"
    by (rule place_in_row[OF r2]) simp_all
  then obtain g3 where p3: "placeOneShip_p1 g2 3 2 s2 = Some (Inr (g3, s3))"
    and r3: "rowsEmptyFrom g3 3" unfolding s2_def by (auto simp add: eval_nat_numeral)
  have "\<exists>g'. placeOneShip_p1 g3 3 3 (0 ## 3 ## 1 ## s4) = Some (Inr (g', s4))
          \<and> rowsEmptyFrom g' (Suc 3)"
    by (rule place_in_row[OF r3]) simp_all
  then obtain g4 where p4: "placeOneShip_p1 g3 3 3 s3 = Some (Inr (g4, s4))"
    and r4: "rowsEmptyFrom g4 4" unfolding s3_def by (auto simp add: eval_nat_numeral)
  have "\<exists>g'. placeOneShip_p1 g4 2 4 (0 ## 4 ## 1 ## s5) = Some (Inr (g', s5))
          \<and> rowsEmptyFrom g' (Suc 4)"
    by (rule place_in_row[OF r4]) simp_all
  then obtain g5 where p5: "placeOneShip_p1 g4 2 4 s4 = Some (Inr (g5, s5))"
    and r5: "rowsEmptyFrom g5 5" unfolding s4_def by (auto simp add: eval_nat_numeral)
  have "\<exists>g'. placeOneShip_p1 g5 2 5 (0 ## 5 ## 1 ## s6) = Some (Inr (g', s6))
          \<and> rowsEmptyFrom g' (Suc 5)"
    by (rule place_in_row[OF r5]) simp_all
  then obtain g6 where p6: "placeOneShip_p1 g5 2 5 s5 = Some (Inr (g6, s6))"
    and r6: "rowsEmptyFrom g6 6" unfolding s5_def by (auto simp add: eval_nat_numeral)
  have "\<exists>g'. placeOneShip_p1 g6 1 6 (0 ## 6 ## 1 ## sconst 0) = Some (Inr (g', sconst 0))
          \<and> rowsEmptyFrom g' (Suc 6)"
    by (rule place_in_row[OF r6]) simp_all
  then obtain g7 where p7: "placeOneShip_p1 g6 1 6 s6 = Some (Inr (g7, sconst 0))"
    unfolding s6_def by auto
  show ?thesis
    unfolding src using p1 p2 p3 p4 p5 p6 p7 by simp
qed

lemma resetGame_p1_keeps:
  assumes "resetGame_p1 g rs = Some (Inr (g', rs'))"
  shows "gameState_p1 g' = PLACING_SHIPS \<and> shipId_p1 g' = shipId_p1 g
         \<and> playerShipHorizontal_p1 g' = playerShipHorizontal_p1 g
         \<and> playerGrid_p1 g' = clearedGrid (playerGrid_p1 g)"
  using assms
  by (auto simp add: resetGame_p1_def placeArduinoShips_p1_def initializeGrids_p1_def
      split: option.splits sum.splits prod.splits)

lemma resetGame_p1_returns:
  "\<exists>g1. resetGame_p1 afterGame_p1 rowsSource = Some (Inr (g1, sconst 0))"
proof -
  have ag: "arduinoGrid_p1 (initializeGrids_p1 afterGame_p1) = replicate 12 (replicate 12 0)"
    by (simp add: initializeGrids_p1_def afterGame_p1_def clearedGrid_def)
  from placeRoster_p1_rows[OF empty_board_rows] obtain grid' where
    "placeRoster_p1 [(0, 5), (1, 4), (2, 3), (3, 3), (4, 2), (5, 2), (6, 1)]
       (replicate 12 (replicate 12 0)) rowsSource = Some (Inr (grid', sconst 0))"
    by blast
  then show ?thesis
    by (simp add: resetGame_p1_def placeArduinoShips_p1_def roster_p1 ag)
qed

text \<open>
  C9. In the sketch \<^verbatim>\<open>part_001\<close> a reset after a finished game does not replay the
  placement phase. From \<^const>\<open>afterGame_p1\<close> (phase \<^verbatim>\<open>GAME_OVER\<close>, all seven ships placed
  in the game just played), \<^verbatim>\<open>resetGame\<close> clears the grids, places the Arduino's ships and
  sets the phase to \<^verbatim>\<open>PLACING_SHIPS\<close>, but the static counter still stands at 7. The next
  call of \<^verbatim>\<open>playerPlaceShips\<close>, made by the same pass of \<^verbatim>\<open>loop\<close>, finds
  \<^verbatim>\<open>shipId >= NUM_SHIPS\<close> and sets the phase to \<^verbatim>\<open>PLAYER_TURN\<close> at once: the player starts
  the new game with an empty grid.
\<close>

theorem C9_static_counter_survives_reset:
  "gameState_p1 afterGame_p1 = GAME_OVER
   \<and> unat (shipId_p1 afterGame_p1) = NUM_SHIPS_sm
   \<and> (case resetGame_p1 afterGame_p1 rowsSource of
         Some (Inr (g1, rs1)) \<Rightarrow>
           gameState_p1 g1 = PLACING_SHIPS
           \<and> shipId_p1 g1 = 7
           \<and> playerGrid_p1 g1 = replicate 12 (replicate 12 0)
           \<and> playerPlaceShips_p1
                \<lparr>redPin = HIGH, bluePin = HIGH, joystickButtonPin = HIGH,
                 joystickX = 512, joystickY = 512, millis = 1000\<rparr> g1
               = Inr (g1\<lparr>gameState_p1 := PLAYER_TURN\<rparr>)
       | _ \<Rightarrow> False)"
proof -
  obtain g1 where r: "resetGame_p1 afterGame_p1 rowsSource = Some (Inr (g1, sconst 0))"
    using resetGame_p1_returns by blast
  from resetGame_p1_keeps[OF r]
  have s: "gameState_p1 g1 = PLACING_SHIPS" and i: "shipId_p1 g1 = 7"
    and pg: "playerGrid_p1 g1 = replicate 12 (replicate 12 0)"
    by (simp_all add: afterGame_p1_def clearedGrid_def)
  have "playerPlaceShips_p1
                \<lparr>redPin = HIGH, bluePin = HIGH, joystickButtonPin = HIGH,
                 joystickX = 512, joystickY = 512, millis = 1000\<rparr> g1
               = Inr (g1\<lparr>gameState_p1 := PLAYER_TURN\<rparr>)"
    using i by (simp add: playerPlaceShips_p1_def NUM_SHIPS_sm_def)
  then show ?thesis
    using r s i pg by (simp add: afterGame_p1_def NUM_SHIPS_sm_def)
qed

end
